theory Spec2Isabelle
  imports Main "HOL-Library.Word"
begin

unbundle bit_operations_syntax

section \<open>Data model\<close>

text \<open>
  The embedding follows \<^verbatim>\<open>src/sig/picnic/external/picnic3_impl.c\<close>. Byte buffers are
  lists of 8-bit words; a C array together with its fill count (\<^verbatim>\<open>challengeC\<close> and
  \<^verbatim>\<open>countC\<close>, a buffer and its length field) is the list of its filled entries.
  The fields of \<^verbatim>\<open>picnic_instance_t\<close> are small unsigned integers, read as
  natural numbers; byte counts accumulated in a \<^verbatim>\<open>size_t\<close> wrap modulo \<open>2 ^ 64\<close>.
  The three LowMC fields \<^verbatim>\<open>n\<close>, \<^verbatim>\<open>m\<close>, \<^verbatim>\<open>r\<close> carry the prefix \<open>lowmc_\<close>.
\<close>

type_synonym byte = "8 word"
type_synonym bytes = "8 word list"
type_synonym u16 = "16 word"

record lowmc_parameters_t =
  lowmc_m :: nat
  lowmc_n :: nat
  lowmc_r :: nat

record picnic_instance_t =
  lowmc :: lowmc_parameters_t
  digest_size :: nat
  seed_size :: nat
  num_rounds :: nat
  num_opened_rounds :: nat
  num_MPC_parties :: nat
  input_output_size :: nat
  view_size :: nat

record proof2_t =
  seedInfo :: bytes
  aux :: bytes
  C :: bytes
  input :: bytes
  msgs :: bytes
  unOpenedIndex :: u16

text \<open>
  \<^verbatim>\<open>seedInfoLen\<close>, \<^verbatim>\<open>iSeedInfoLen\<close> and \<^verbatim>\<open>cvInfoLen\<close> are the lengths of the lists
  \<open>seedInfo\<close>, \<open>iSeedInfo\<close> and \<open>cvInfo\<close>. An entry of \<open>proofs\<close> is \<open>None\<close> until
  \<^verbatim>\<open>allocateProof2\<close> has been called on it.
\<close>

record signature2_t =
  salt :: bytes
  iSeedInfo :: bytes
  cvInfo :: bytes
  challenge :: bytes
  challengeC :: "u16 list"
  challengeP :: "u16 list"
  proofs :: "proof2_t option list"

subsection \<open>Collaborators that are not part of the file\<close>

text \<open>
  The hash, the bit accessors, the tree size functions and the allocator live in headers
  outside \<^verbatim>\<open>picnic3_impl.c\<close>. They are parameters of the model, collected in one record:
  \<^item> \<open>xof d p data i\<close> is byte \<open>i\<close> of the output stream of the extendable-output hash
    initialised for digest size \<open>d\<close>, with the optional domain prefix \<open>p\<close>, after
    absorbing \<open>data\<close>;
  \<^item> \<open>getBit buf k\<close> is bit \<open>k\<close> of a buffer;
  \<^item> \<open>check_padding_bits b k\<close> tells whether byte \<open>b\<close> has a nonzero bit among its \<open>k\<close>
    padding bits;
  \<^item> \<open>revealSeedsSize\<close> and \<open>openMerkleTreeSize\<close> report the byte size of an opening,
    or \<open>SIZE_MAX\<close>;
  \<^item> \<open>allocateProof2 params\<close> is a proof as \<^verbatim>\<open>allocateProof2\<close> leaves it.
\<close>

record prims =
  xof :: "nat \<Rightarrow> byte option \<Rightarrow> bytes \<Rightarrow> nat \<Rightarrow> byte"
  getBit :: "bytes \<Rightarrow> nat \<Rightarrow> bool"
  ceil_log2 :: "nat \<Rightarrow> nat"
  check_padding_bits :: "byte \<Rightarrow> nat \<Rightarrow> bool"
  revealSeedsSize :: "nat \<Rightarrow> u16 list \<Rightarrow> nat \<Rightarrow> picnic_instance_t \<Rightarrow> nat"
  openMerkleTreeSize :: "nat \<Rightarrow> u16 list \<Rightarrow> nat \<Rightarrow> picnic_instance_t \<Rightarrow> nat"
  allocateProof2 :: "picnic_instance_t \<Rightarrow> proof2_t"

text \<open>Modelled from the spec: the constants \<^verbatim>\<open>SALT_SIZE\<close> (32 bytes) and
  \<^verbatim>\<open>HASH_PREFIX_1\<close> (\<open>0x01\<close>), whose definitions are in headers outside the file.\<close>

definition SALT_SIZE :: nat where
  "SALT_SIZE = 32"

definition HASH_PREFIX_1 :: byte where
  "HASH_PREFIX_1 = 1"

definition SIZE_MAX :: nat where
  "SIZE_MAX = 2 ^ 64 - 1"

definition size_add :: "nat \<Rightarrow> nat \<Rightarrow> nat" where
  "size_add a b = (a + b) mod Suc SIZE_MAX"

subsection \<open>The hash context\<close>

text \<open>A hash context is what has been absorbed so far; squeezing reads the stream.\<close>

record hash_context =
  ctx_digest_size :: nat
  ctx_prefix :: "byte option"
  ctx_absorbed :: bytes

definition hash_init :: "nat \<Rightarrow> hash_context" where
  "hash_init d = \<lparr>ctx_digest_size = d, ctx_prefix = None, ctx_absorbed = []\<rparr>"

definition hash_init_prefix :: "nat \<Rightarrow> byte \<Rightarrow> hash_context" where
  "hash_init_prefix d p = \<lparr>ctx_digest_size = d, ctx_prefix = Some p, ctx_absorbed = []\<rparr>"

definition hash_update :: "hash_context \<Rightarrow> bytes \<Rightarrow> nat \<Rightarrow> hash_context" where
  "hash_update ctx data len = ctx\<lparr>ctx_absorbed := ctx_absorbed ctx @ take len data\<rparr>"

definition hash_update_uint16_le :: "hash_context \<Rightarrow> u16 \<Rightarrow> hash_context" where
  "hash_update_uint16_le ctx v =
     ctx\<lparr>ctx_absorbed := ctx_absorbed ctx @ [ucast v, ucast (drop_bit 8 v)]\<rparr>"

definition hash_final :: "hash_context \<Rightarrow> hash_context" where
  "hash_final ctx = ctx"

definition hash_squeeze :: "'z prims_scheme \<Rightarrow> hash_context \<Rightarrow> nat \<Rightarrow> bytes" where
  "hash_squeeze pr ctx len =
     map (xof pr (ctx_digest_size ctx) (ctx_prefix ctx) (ctx_absorbed ctx)) [0..<len]"

section \<open>Helper functions\<close>

definition numBytes :: "nat \<Rightarrow> nat" where
  "numBytes numBits = ((numBits + 7) mod 2 ^ 32) div 8"

definition xor_byte_array :: "bytes \<Rightarrow> bytes \<Rightarrow> nat \<Rightarrow> bytes" where
  "xor_byte_array in1 in2 len = map (\<lambda>i. (in1 ! i) XOR (in2 ! i)) [0..<len]"

definition contains :: "u16 list \<Rightarrow> nat \<Rightarrow> u16 \<Rightarrow> bool" where
  "contains list len v = (v \<in> set (take len list))"

fun indexOf_loop :: "u16 list \<Rightarrow> u16 \<Rightarrow> nat \<Rightarrow> int" where
  "indexOf_loop [] v i = - 1"
| "indexOf_loop (x # xs) v i = (if x = v then int i else indexOf_loop xs v (Suc i))"

definition indexOf :: "u16 list \<Rightarrow> nat \<Rightarrow> u16 \<Rightarrow> int" where
  "indexOf list len v = indexOf_loop (take len list) v 0"

text \<open>
  \<^verbatim>\<open>bitsToChunks\<close>: chunk \<open>i\<close> is accumulated in a \<^verbatim>\<open>uint16_t\<close>, bit \<open>j\<close> of the chunk
  being bit \<open>i * chunkLenBits + j\<close> of the input. The result is the list of the
  \<^verbatim>\<open>chunkCount\<close> chunks written (empty on invalid input, where the C returns 0).
\<close>

definition chunk_of :: "'z prims_scheme \<Rightarrow> nat \<Rightarrow> bytes \<Rightarrow> nat \<Rightarrow> u16" where
  "chunk_of pr chunkLenBits inp i =
     foldl (\<lambda>c j. c + push_bit j (of_bool (getBit pr inp (i * chunkLenBits + j))))
       0 [0..<chunkLenBits]"

definition bitsToChunks :: "'z prims_scheme \<Rightarrow> nat \<Rightarrow> bytes \<Rightarrow> nat \<Rightarrow> u16 list" where
  "bitsToChunks pr chunkLenBits inp inputLen =
     (if chunkLenBits = 0 \<or> chunkLenBits > inputLen * 8 then []
      else map (chunk_of pr chunkLenBits inp) [0..<(inputLen * 8) div chunkLenBits])"

text \<open>\<^verbatim>\<open>appendUnique\<close>: the list is \<^verbatim>\<open>list[0..position)\<close>, the result's length the
  returned position.\<close>

definition appendUnique :: "u16 list \<Rightarrow> u16 \<Rightarrow> u16 list" where
  "appendUnique list v =
     (if length list = 0 then list @ [v]
      else if contains list (length list) v then list
      else list @ [v])"

section \<open>Challenge expansion\<close>

definition rehash :: "'z prims_scheme \<Rightarrow> picnic_instance_t \<Rightarrow> bytes \<Rightarrow> bytes" where
  "rehash pr params h =
     hash_squeeze pr
       (hash_final (hash_update (hash_init_prefix (digest_size params) HASH_PREFIX_1)
          h (digest_size params)))
       (digest_size params)"

text \<open>The inner loop of the first phase, over the chunks of one buffer.\<close>

fun chunksC :: "picnic_instance_t \<Rightarrow> u16 list \<Rightarrow> u16 list \<Rightarrow> u16 list" where
  "chunksC params [] cC = cC"
| "chunksC params (c # cs) cC =
     (let cC' = (if unat c < num_rounds params then appendUnique cC c else cC)
      in if length cC' = num_opened_rounds params then cC'
         else chunksC params cs cC')"

text \<open>The inner loop of the second phase.\<close>

fun chunksP :: "picnic_instance_t \<Rightarrow> u16 list \<Rightarrow> u16 list \<Rightarrow> u16 list" where
  "chunksP params [] cP = cP"
| "chunksP params (c # cs) cP =
     (let cP' = (if unat c < num_MPC_parties params then cP @ [c] else cP)
      in if length cP' = num_opened_rounds params then cP'
         else chunksP params cs cP')"

text \<open>
  The two outer loops. Neither is bounded by the code: each runs until its list holds
  \<^verbatim>\<open>num_opened_rounds\<close> entries, so a result of \<open>None\<close> stands for a loop that does
  not return. The first loop returns the buffer \<open>h\<close> it ends with.
\<close>

partial_function (option) populateC ::
  "'z prims_scheme \<Rightarrow> picnic_instance_t \<Rightarrow> bytes \<Rightarrow> u16 list \<Rightarrow> (u16 list \<times> bytes) option"
where
  "populateC pr params h cC =
     (if length cC < num_opened_rounds params then
        populateC pr params (rehash pr params h)
          (chunksC params
             (bitsToChunks pr (ceil_log2 pr (num_rounds params)) h (digest_size params)) cC)
      else Some (cC, h))"

partial_function (option) populateP ::
  "'z prims_scheme \<Rightarrow> picnic_instance_t \<Rightarrow> bytes \<Rightarrow> u16 list \<Rightarrow> (u16 list \<times> bytes) option"
where
  "populateP pr params h cP =
     (if length cP < num_opened_rounds params then
        populateP pr params (rehash pr params h)
          (chunksP params
             (bitsToChunks pr (ceil_log2 pr (num_MPC_parties params)) h (digest_size params)) cP)
      else Some (cP, h))"

definition expandChallenge ::
  "'z prims_scheme \<Rightarrow> picnic_instance_t \<Rightarrow> bytes \<Rightarrow> (u16 list \<times> u16 list) option"
where
  "expandChallenge pr params sigH =
     (case populateC pr params (take (digest_size params) sigH) [] of
        None \<Rightarrow> None
      | Some (cC, h) \<Rightarrow>
          (case populateP pr params h [] of
             None \<Rightarrow> None
           | Some (cP, h') \<Rightarrow> Some (cC, cP)))"

text \<open>
  One pass of the first loop in the words of the specification: the inner loop appends
  to the list from the chunks of the buffer, then the buffer is replaced by the first
  \<^verbatim>\<open>digest_size\<close> bytes squeezed from the hash initialised with prefix \<open>0x01\<close> after
  absorbing the buffer. The state is the pair of the list and the buffer.
\<close>

definition passC ::
  "'z prims_scheme \<Rightarrow> picnic_instance_t \<Rightarrow> u16 list \<times> bytes \<Rightarrow> u16 list \<times> bytes"
where
  "passC pr params s =
     (chunksC params
        (bitsToChunks pr (ceil_log2 pr (num_rounds params)) (snd s) (digest_size params)) (fst s),
      map (xof pr (digest_size params) (Some 1) (take (digest_size params) (snd s)))
        [0..<digest_size params])"


section \<open>Serialization\<close>

text \<open>
  What a call can do besides returning success: return a failure code, or leave the
  defined behaviour of C (a copy that runs past the end of a buffer, a read through a
  pointer that was never allocated). The latter is kept apart so that no theorem
  silently reads bytes that are not there.
\<close>

datatype outcome = Returns int | Undefined_behaviour

definition EXIT_SUCCESS :: int where
  "EXIT_SUCCESS = 0"

definition EXIT_FAILURE :: int where
  "EXIT_FAILURE = 1"

definition size_sub :: "nat \<Rightarrow> nat \<Rightarrow> nat" where
  "size_sub a b = (a + Suc SIZE_MAX - b mod Suc SIZE_MAX) mod Suc SIZE_MAX"

definition sum_bind :: "outcome + 'a \<Rightarrow> ('a \<Rightarrow> outcome + 'b) \<Rightarrow> outcome + 'b" where
  "sum_bind x f = (case x of Inl e \<Rightarrow> Inl e | Inr v \<Rightarrow> f v)"

text \<open>\<^verbatim>\<open>memcpy(dst, src, n); src += n\<close>: the bytes copied and the advanced source.\<close>

definition memcpy_from :: "bytes \<Rightarrow> nat \<Rightarrow> outcome + (bytes \<times> bytes)" where
  "memcpy_from src n =
     (if n \<le> length src then Inr (take n src, drop n src) else Inl Undefined_behaviour)"

definition arePaddingBitsZero ::
  "'z prims_scheme \<Rightarrow> bytes \<Rightarrow> nat \<Rightarrow> nat \<Rightarrow> outcome + bool"
where
  "arePaddingBitsZero pr data byteLength bitLength =
     (if byteLength = 0 \<or> length data < byteLength then Inl Undefined_behaviour
      else Inr (\<not> check_padding_bits pr (data ! (byteLength - 1))
                   (size_sub (byteLength * 8) bitLength)))"

definition getMissingLeavesList :: "u16 list \<Rightarrow> picnic_instance_t \<Rightarrow> u16 list" where
  "getMissingLeavesList cC params =
     map of_nat
       (filter (\<lambda>i. \<not> contains cC (num_opened_rounds params) (of_nat i))
          [0..<num_rounds params])"

text \<open>\<^verbatim>\<open>sig->challengeP[indexOf(sig->challengeC, params->num_opened_rounds, t)]\<close>\<close>

definition P_t_of :: "picnic_instance_t \<Rightarrow> u16 list \<Rightarrow> u16 list \<Rightarrow> nat \<Rightarrow> u16" where
  "P_t_of params cC cP t = cP ! nat (indexOf cC (num_opened_rounds params) (of_nat t))"

text \<open>
  The comparison \<^verbatim>\<open>P_t != (params->num_MPC_parties - 1u)\<close> of a \<^verbatim>\<open>uint16_t\<close> with the
  index of the last party. The subtraction is unsigned: with no party its value is the
  largest \<^verbatim>\<open>unsigned int\<close>, which no \<^verbatim>\<open>uint16_t\<close> equals. The signer compares with
  \<^verbatim>\<open>size_t last = params->num_MPC_parties - 1\<close> and with \<^verbatim>\<open>params->num_MPC_parties - 1\<close>,
  which no \<^verbatim>\<open>uint16_t\<close> equals either when there is no party.
\<close>

definition not_last_party :: "picnic_instance_t \<Rightarrow> u16 \<Rightarrow> bool" where
  "not_last_party params P_t =
     (if num_MPC_parties params = 0 then True else unat P_t \<noteq> num_MPC_parties params - 1)"

subsection \<open>Decoding\<close>

text \<open>One iteration of the loop that adds up the bytes the proofs need.\<close>

definition bytesRequired_step ::
  "picnic_instance_t \<Rightarrow> u16 list \<Rightarrow> u16 list \<Rightarrow> nat \<Rightarrow> nat \<Rightarrow> nat \<Rightarrow> nat"
where
  "bytesRequired_step params cC cP seedInfoLen bytesRequired t =
     (if contains cC (num_opened_rounds params) (of_nat t) then
        let b1 = (if not_last_party params (P_t_of params cC cP t)
                  then size_add bytesRequired (view_size params) else bytesRequired);
            b2 = size_add b1 (digest_size params);
            b3 = size_add b2 (input_output_size params);
            b4 = size_add b3 (view_size params)
        in size_add b4 seedInfoLen
      else bytesRequired)"

text \<open>One iteration of the loop that reads the proofs: the proof of an opened round,
  and the rest of the input.\<close>

definition read_proof ::
  "'z prims_scheme \<Rightarrow> picnic_instance_t \<Rightarrow> nat \<Rightarrow> u16 \<Rightarrow> bytes \<Rightarrow>
     outcome + (proof2_t \<times> bytes)"
where
  "read_proof pr params seedInfoLen P_t sigBytes =
     sum_bind (memcpy_from sigBytes seedInfoLen) (\<lambda>(si, sb1).
     sum_bind
       (if not_last_party params P_t then
          sum_bind (memcpy_from sb1 (view_size params)) (\<lambda>(a, sb2).
          sum_bind (arePaddingBitsZero pr a (view_size params)
                      (3 * lowmc_r (lowmc params) * lowmc_m (lowmc params))) (\<lambda>ok.
          if \<not> ok then Inl (Returns (- 1)) else Inr (a, sb2)))
        else Inr (aux (allocateProof2 pr params), sb1)) (\<lambda>(a, sb2).
     sum_bind (memcpy_from sb2 (input_output_size params)) (\<lambda>(inp, sb3).
     sum_bind (arePaddingBitsZero pr inp (input_output_size params)
                 (lowmc_n (lowmc params))) (\<lambda>ok.
     if \<not> ok then Inl (Returns (- 1)) else
     sum_bind (memcpy_from sb3 (view_size params)) (\<lambda>(ms, sb4).
     sum_bind (arePaddingBitsZero pr ms (view_size params)
                 (3 * lowmc_r (lowmc params) * lowmc_m (lowmc params))) (\<lambda>ok.
     if \<not> ok then Inl (Returns (- 1)) else
     sum_bind (memcpy_from sb4 (digest_size params)) (\<lambda>(c, sb5).
     Inr ((allocateProof2 pr params)
            \<lparr>seedInfo := si, aux := a, C := c, input := inp, msgs := ms\<rparr>, sb5))))))))"

fun read_proofs ::
  "'z prims_scheme \<Rightarrow> picnic_instance_t \<Rightarrow> u16 list \<Rightarrow> u16 list \<Rightarrow> nat \<Rightarrow> bytes \<Rightarrow>
     nat list \<Rightarrow> outcome + (proof2_t option list \<times> bytes)"
where
  "read_proofs pr params cC cP seedInfoLen sigBytes [] = Inr ([], sigBytes)"
| "read_proofs pr params cC cP seedInfoLen sigBytes (t # ts) =
     (if contains cC (num_opened_rounds params) (of_nat t) then
        sum_bind (read_proof pr params seedInfoLen (P_t_of params cC cP t) sigBytes)
          (\<lambda>(prf, sb).
        sum_bind (read_proofs pr params cC cP seedInfoLen sb ts) (\<lambda>(ps, sb').
        Inr (Some prf # ps, sb')))
      else
        sum_bind (read_proofs pr params cC cP seedInfoLen sigBytes ts) (\<lambda>(ps, sb').
        Inr (None # ps, sb')))"

text \<open>The decoder after \<^verbatim>\<open>expandChallenge\<close> has returned.\<close>

definition deserialize_expanded ::
  "'z prims_scheme \<Rightarrow> picnic_instance_t \<Rightarrow> nat \<Rightarrow> bytes \<Rightarrow> bytes \<Rightarrow> u16 list \<Rightarrow> u16 list \<Rightarrow>
     bytes \<Rightarrow> outcome + signature2_t"
where
  "deserialize_expanded pr params sigBytesLen chal slt cC cP sigBytes =
     (let iSeedInfoLen =
            revealSeedsSize pr (num_rounds params) cC (num_opened_rounds params) params
      in if iSeedInfoLen = SIZE_MAX then Inl (Returns EXIT_FAILURE) else
      let bytesRequired1 = size_add (digest_size params + SALT_SIZE) iSeedInfoLen;
          missingLeavesSize = size_sub (num_rounds params) (num_opened_rounds params);
          missingLeaves = getMissingLeavesList cC params;
          cvInfoLen =
            openMerkleTreeSize pr (num_rounds params) missingLeaves missingLeavesSize params;
          bytesRequired2 = size_add bytesRequired1 cvInfoLen
      in if cvInfoLen = SIZE_MAX then Inl (Returns EXIT_FAILURE) else
      let seedInfoLen = revealSeedsSize pr (num_MPC_parties params) [0] 1 params
      in if seedInfoLen = SIZE_MAX then Inl (Returns EXIT_FAILURE) else
      let bytesRequired3 =
            foldl (bytesRequired_step params cC cP seedInfoLen) bytesRequired2
              [0..<num_rounds params]
      in if sigBytesLen \<noteq> bytesRequired3 then Inl (Returns EXIT_FAILURE) else
      sum_bind (memcpy_from sigBytes iSeedInfoLen) (\<lambda>(isi, sb1).
      sum_bind (memcpy_from sb1 cvInfoLen) (\<lambda>(cvi, sb2).
      sum_bind (read_proofs pr params cC cP seedInfoLen sb2 [0..<num_rounds params])
        (\<lambda>(ps, sb3).
      Inr \<lparr>salt = slt, iSeedInfo = isi, cvInfo = cvi, challenge = chal,
           challengeC = cC, challengeP = cP, proofs = ps\<rparr>))))"

text \<open>
  \<^verbatim>\<open>deserializeSignature2\<close>. The result is \<open>None\<close> when \<^verbatim>\<open>expandChallenge\<close> does
  not return, \<open>Inr sig\<close> when the C returns \<^verbatim>\<open>EXIT_SUCCESS\<close> with \<open>sig\<close> filled.
\<close>

definition deserializeSignature2 ::
  "'z prims_scheme \<Rightarrow> picnic_instance_t \<Rightarrow> bytes \<Rightarrow> (outcome + signature2_t) option"
where
  "deserializeSignature2 pr params sigBytes =
     (if length sigBytes < digest_size params + SALT_SIZE then Some (Inl (Returns EXIT_FAILURE))
      else
        let chal = take (digest_size params) sigBytes;
            sb1 = drop (digest_size params) sigBytes;
            slt = take SALT_SIZE sb1;
            sb2 = drop SALT_SIZE sb1
        in case expandChallenge pr params chal of
             None \<Rightarrow> None
           | Some (cC, cP) \<Rightarrow>
               Some (deserialize_expanded pr params (length sigBytes) chal slt cC cP sb2))"

subsection \<open>Encoding\<close>

definition required_step ::
  "picnic_instance_t \<Rightarrow> u16 list \<Rightarrow> u16 list \<Rightarrow> nat \<Rightarrow> nat \<times> proof2_t option \<Rightarrow> nat"
where
  "required_step params cC cP bytesRequired tp =
     (if contains cC (num_opened_rounds params) (of_nat (fst tp)) then
        let b1 = size_add bytesRequired
                   (case snd tp of None \<Rightarrow> 0 | Some prf \<Rightarrow> length (seedInfo prf));
            b2 = (if not_last_party params (P_t_of params cC cP (fst tp))
                  then size_add b1 (view_size params) else b1)
        in size_add b2
             (digest_size params + input_output_size params + view_size params)
      else bytesRequired)"

definition required_signature_size :: "signature2_t \<Rightarrow> picnic_instance_t \<Rightarrow> nat" where
  "required_signature_size sg params =
     foldl (required_step params (challengeC sg) (challengeP sg))
       (size_add (size_add (digest_size params + SALT_SIZE) (length (iSeedInfo sg)))
          (length (cvInfo sg)))
       (zip [0..<num_rounds params] (proofs sg))"

definition write_proof :: "picnic_instance_t \<Rightarrow> u16 \<Rightarrow> proof2_t option \<Rightarrow> outcome + bytes" where
  "write_proof params P_t p =
     (case p of
        None \<Rightarrow> Inl Undefined_behaviour
      | Some prf \<Rightarrow>
          sum_bind
            (if not_last_party params P_t
             then memcpy_from (aux prf) (view_size params) else Inr ([], [])) (\<lambda>(a, _).
          sum_bind (memcpy_from (input prf) (input_output_size params)) (\<lambda>(inp, _).
          sum_bind (memcpy_from (msgs prf) (view_size params)) (\<lambda>(ms, _).
          sum_bind (memcpy_from (C prf) (digest_size params)) (\<lambda>(c, _).
          Inr (seedInfo prf @ a @ inp @ ms @ c))))))"

fun write_proofs ::
  "picnic_instance_t \<Rightarrow> u16 list \<Rightarrow> u16 list \<Rightarrow> (nat \<times> proof2_t option) list \<Rightarrow>
     outcome + bytes"
where
  "write_proofs params cC cP [] = Inr []"
| "write_proofs params cC cP (tp # tps) =
     (if contains cC (num_opened_rounds params) (of_nat (fst tp)) then
        sum_bind (write_proof params (P_t_of params cC cP (fst tp)) (snd tp)) (\<lambda>bs.
        sum_bind (write_proofs params cC cP tps) (\<lambda>rest. Inr (bs @ rest)))
      else write_proofs params cC cP tps)"

text \<open>The value of a \<^verbatim>\<open>size_t\<close> returned through an \<^verbatim>\<open>int\<close>.\<close>

definition int_of_size :: "nat \<Rightarrow> int" where
  "int_of_size x = sint (word_of_nat x :: 32 word)"

text \<open>
  \<^verbatim>\<open>serializeSignature2\<close>: the returned \<^verbatim>\<open>int\<close> together with the bytes written to
  the front of the caller's buffer. The loops count rounds in a \<^verbatim>\<open>uint16_t\<close> and do not
  end when \<^verbatim>\<open>num_rounds\<close> exceeds its range; the array \<^verbatim>\<open>sig->proofs\<close> has
  \<^verbatim>\<open>num_rounds\<close> entries.
\<close>

definition serializeSignature2 ::
  "signature2_t \<Rightarrow> nat \<Rightarrow> picnic_instance_t \<Rightarrow> (outcome + (int \<times> bytes)) option"
where
  "serializeSignature2 sg sigBytesLen params =
     (if num_rounds params > 65535 then None
      else Some
       (if length (proofs sg) \<noteq> num_rounds params then Inl Undefined_behaviour else
        let required_bytes = required_signature_size sg params
        in if sigBytesLen < required_bytes then Inl (Returns (- 1)) else
        sum_bind (memcpy_from (challenge sg) (digest_size params)) (\<lambda>(c, _).
        sum_bind (memcpy_from (salt sg) SALT_SIZE) (\<lambda>(s, _).
        sum_bind (write_proofs params (challengeC sg) (challengeP sg)
                    (zip [0..<num_rounds params] (proofs sg))) (\<lambda>ps.
        let out = c @ s @ iSeedInfo sg @ cvInfo sg @ ps
        in if sigBytesLen < length out then Inl Undefined_behaviour
           else Inr (int_of_size required_bytes, out))))))"


section \<open>The protocol\<close>

text \<open>
  The tapes and transcripts of one repetition. The cursor fields \<^verbatim>\<open>pos\<close> of
  \<^verbatim>\<open>randomTape_t\<close> and of \<^verbatim>\<open>msgs_t\<close>, and the fields \<^verbatim>\<open>msgs\<close> and \<^verbatim>\<open>unopened\<close> of
  \<^verbatim>\<open>msgs_t\<close>, carry the name of their structure as a prefix. A buffer that has been
  allocated and not yet written is the empty list.
\<close>

record randomTape_t =
  tape :: "bytes list"
  parity_tapes :: bytes
  aux_bits :: bytes
  tape_pos :: nat
  aux_pos :: nat

record msgs_t =
  msgs_msgs :: "bytes list"
  msgs_pos :: nat
  msgs_unopened :: int

record commitments_t =
  hashes :: "bytes list"

text \<open>
  The collaborators of signing and verification: the seed tree, the Merkle tree, LowMC
  and the allocators whose result is read before it is written. \<open>'tree\<close> is
  \<^verbatim>\<open>tree_t\<close>, \<open>'mzd\<close> is \<^verbatim>\<open>mzd_local_t\<close>. A function that fills a structure through a
  pointer returns the structure; one that can fail to allocate returns an option.
\<close>

record ('tree, 'mzd) protocol_prims = prims +
  setBit :: "bytes \<Rightarrow> nat \<Rightarrow> bool \<Rightarrow> bytes"
  generateSeeds :: "nat \<Rightarrow> bytes \<Rightarrow> bytes \<Rightarrow> nat \<Rightarrow> picnic_instance_t \<Rightarrow> 'tree option"
  createTree :: "nat \<Rightarrow> nat \<Rightarrow> 'tree option"
  getLeaves :: "'tree \<Rightarrow> bytes option"
  getLeaf :: "'tree \<Rightarrow> nat \<Rightarrow> bytes"
  revealSeeds :: "'tree \<Rightarrow> u16 list \<Rightarrow> nat \<Rightarrow> nat \<Rightarrow> picnic_instance_t \<Rightarrow> bytes"
  reconstructSeeds ::
    "'tree \<Rightarrow> u16 list \<Rightarrow> nat \<Rightarrow> bytes \<Rightarrow> nat \<Rightarrow> bytes \<Rightarrow> nat \<Rightarrow> picnic_instance_t \<Rightarrow> int \<times> 'tree"
  buildMerkleTree :: "'tree \<Rightarrow> bytes option list \<Rightarrow> bytes \<Rightarrow> picnic_instance_t \<Rightarrow> 'tree"
  openMerkleTree :: "'tree \<Rightarrow> u16 list \<Rightarrow> nat \<Rightarrow> bytes option"
  addMerkleNodes :: "'tree \<Rightarrow> u16 list \<Rightarrow> nat \<Rightarrow> bytes \<Rightarrow> nat \<Rightarrow> int \<times> 'tree"
  verifyMerkleTree :: "'tree \<Rightarrow> bytes option list \<Rightarrow> bytes \<Rightarrow> picnic_instance_t \<Rightarrow> int \<times> 'tree"
  tree_nodes :: "'tree \<Rightarrow> bytes"
  mzd_from_char_array :: "bytes \<Rightarrow> nat \<Rightarrow> 'mzd"
  mzd_to_char_array :: "'mzd \<Rightarrow> nat \<Rightarrow> bytes"
  lowmc_compute_aux :: "lowmc_parameters_t \<Rightarrow> 'mzd \<Rightarrow> randomTape_t \<Rightarrow> 'mzd \<times> randomTape_t"
  simulateOnline ::
    "'mzd \<Rightarrow> randomTape_t \<Rightarrow> msgs_t \<Rightarrow> 'mzd \<Rightarrow> bytes \<Rightarrow> picnic_instance_t \<Rightarrow>
       int \<times> randomTape_t \<times> msgs_t"
  allocateRandomTape :: "picnic_instance_t \<Rightarrow> randomTape_t"
  allocateMsgs :: "picnic_instance_t \<Rightarrow> msgs_t list option"
  allocateMsgsVerify :: "picnic_instance_t \<Rightarrow> msgs_t option"
  allocateSignature2 :: "picnic_instance_t \<Rightarrow> signature2_t option"

subsection \<open>The four-lane hash\<close>

text \<open>Modelled from the spec: the 4-way interleaved hash of \<^verbatim>\<open>kdf_shake.h\<close>, four
  independent lanes with the state of the scalar hash.\<close>

type_synonym hash_context_x4 = "hash_context list"

definition hash_init_x4 :: "nat \<Rightarrow> hash_context_x4" where
  "hash_init_x4 d = replicate 4 (hash_init d)"

definition hash_update_x4 :: "hash_context_x4 \<Rightarrow> bytes list \<Rightarrow> nat \<Rightarrow> hash_context_x4" where
  "hash_update_x4 ctx datas len = map (\<lambda>k. hash_update (ctx ! k) (datas ! k) len) [0..<4]"

definition hash_update_x4_4 ::
  "hash_context_x4 \<Rightarrow> bytes \<Rightarrow> bytes \<Rightarrow> bytes \<Rightarrow> bytes \<Rightarrow> nat \<Rightarrow> hash_context_x4"
where
  "hash_update_x4_4 ctx d0 d1 d2 d3 len = hash_update_x4 ctx [d0, d1, d2, d3] len"

definition hash_update_x4_1 :: "hash_context_x4 \<Rightarrow> bytes \<Rightarrow> nat \<Rightarrow> hash_context_x4" where
  "hash_update_x4_1 ctx d len = hash_update_x4 ctx [d, d, d, d] len"

definition hash_update_x4_uint16_le :: "hash_context_x4 \<Rightarrow> u16 \<Rightarrow> hash_context_x4" where
  "hash_update_x4_uint16_le ctx v = map (\<lambda>k. hash_update_uint16_le (ctx ! k) v) [0..<4]"

definition hash_update_x4_uint16s_le :: "hash_context_x4 \<Rightarrow> u16 list \<Rightarrow> hash_context_x4" where
  "hash_update_x4_uint16s_le ctx vs = map (\<lambda>k. hash_update_uint16_le (ctx ! k) (vs ! k)) [0..<4]"

definition hash_final_x4 :: "hash_context_x4 \<Rightarrow> hash_context_x4" where
  "hash_final_x4 ctx = map hash_final ctx"

definition hash_squeeze_x4 :: "'z prims_scheme \<Rightarrow> hash_context_x4 \<Rightarrow> nat \<Rightarrow> bytes list" where
  "hash_squeeze_x4 pr ctx len = map (\<lambda>k. hash_squeeze pr (ctx ! k) len) [0..<4]"

definition hash_squeeze_x4_4 :: "'z prims_scheme \<Rightarrow> hash_context_x4 \<Rightarrow> nat \<Rightarrow> bytes list" where
  "hash_squeeze_x4_4 pr ctx len = hash_squeeze_x4 pr ctx len"

subsection \<open>Tapes and commitments\<close>

text \<open>
  The loops that handle the parties four at a time write past their arrays unless
  \<^verbatim>\<open>num_MPC_parties\<close> is a multiple of four (the functions assert it); callers check
  this before they start. A group loop returns the entries it wrote, in order.
\<close>

definition createRandomTapes ::
  "('tree, 'mzd, 'z) protocol_prims_scheme \<Rightarrow> bytes \<Rightarrow> bytes \<Rightarrow> nat \<Rightarrow> picnic_instance_t \<Rightarrow>
     randomTape_t"
where
  "createRandomTapes pr seeds slt t params =
     (allocateRandomTape pr params)
       \<lparr>tape := concat (map (\<lambda>g.
           let i = 4 * g;
               ctx0 = hash_init_x4 (digest_size params);
               ctx1 = hash_update_x4_4 ctx0
                        (drop (i * seed_size params) seeds)
                        (drop ((i + 1) * seed_size params) seeds)
                        (drop ((i + 2) * seed_size params) seeds)
                        (drop ((i + 3) * seed_size params) seeds)
                        (seed_size params);
               ctx2 = hash_update_x4_1 ctx1 slt SALT_SIZE;
               ctx3 = hash_update_x4_uint16_le ctx2 (of_nat t);
               ctx4 = hash_update_x4_uint16s_le ctx3
                        [of_nat i, of_nat (i + 1), of_nat (i + 2), of_nat (i + 3)];
               ctx5 = hash_final_x4 ctx4
           in hash_squeeze_x4_4 pr ctx5 (2 * view_size params))
         [0..<num_MPC_parties params div 4])\<rparr>"

definition computeAuxTape ::
  "('tree, 'mzd, 'z) protocol_prims_scheme \<Rightarrow> randomTape_t \<Rightarrow> picnic_instance_t \<Rightarrow>
     randomTape_t \<times> bytes"
where
  "computeAuxTape pr tapes params =
     (let tapeSizeBytes = 2 * view_size params;
          parity = foldl (\<lambda>p i. xor_byte_array p (tape tapes ! i) tapeSizeBytes
                                   @ drop tapeSizeBytes p)
                     (parity_tapes tapes) [0..<num_MPC_parties params];
          lowmc_key = mzd_from_char_array pr parity (input_output_size params);
          tapes1 = tapes\<lparr>parity_tapes := parity, aux_bits := replicate (view_size params) 0,
                         tape_pos := lowmc_n (lowmc params), aux_pos := 0\<rparr>;
          (key', tapes2) = lowmc_compute_aux pr (lowmc params) lowmc_key tapes1
      in (tapes2\<lparr>tape_pos := 0\<rparr>, mzd_to_char_array pr key' (input_output_size params)))"

text \<open>\<^verbatim>\<open>commit\<close>; \<open>aux\<close> is \<open>None\<close> for a \<^verbatim>\<open>NULL\<close> pointer.\<close>

definition commit ::
  "'z prims_scheme \<Rightarrow> bytes \<Rightarrow> bytes option \<Rightarrow> bytes \<Rightarrow> nat \<Rightarrow> nat \<Rightarrow> picnic_instance_t \<Rightarrow> bytes"
where
  "commit pr seed ax slt t j params =
     (let ctx0 = hash_update (hash_init (digest_size params)) seed (seed_size params);
          ctx1 = (case ax of None \<Rightarrow> ctx0 | Some a \<Rightarrow> hash_update ctx0 a (view_size params));
          ctx2 = hash_update ctx1 slt SALT_SIZE;
          ctx3 = hash_update_uint16_le ctx2 (of_nat t);
          ctx4 = hash_update_uint16_le ctx3 (of_nat j)
      in hash_squeeze pr (hash_final ctx4) (digest_size params))"

definition commit_x4 ::
  "'z prims_scheme \<Rightarrow> bytes list \<Rightarrow> bytes \<Rightarrow> nat \<Rightarrow> nat \<Rightarrow> picnic_instance_t \<Rightarrow> bytes list"
where
  "commit_x4 pr seed slt t j params =
     (let ctx0 = hash_update_x4 (hash_init_x4 (digest_size params)) seed (seed_size params);
          ctx1 = hash_update_x4_1 ctx0 slt SALT_SIZE;
          ctx2 = hash_update_x4_uint16_le ctx1 (of_nat t);
          ctx3 = hash_update_x4_uint16s_le ctx2
                   [of_nat j, of_nat (j + 1), of_nat (j + 2), of_nat (j + 3)]
      in hash_squeeze_x4 pr (hash_final_x4 ctx3) (digest_size params))"

definition commit_h :: "'z prims_scheme \<Rightarrow> commitments_t \<Rightarrow> picnic_instance_t \<Rightarrow> bytes" where
  "commit_h pr Cm params =
     hash_squeeze pr
       (hash_final
          (foldl (\<lambda>ctx i. hash_update ctx (hashes Cm ! i) (digest_size params))
             (hash_init (digest_size params)) [0..<num_MPC_parties params]))
       (digest_size params)"

definition commit_h_x4 ::
  "'z prims_scheme \<Rightarrow> commitments_t list \<Rightarrow> picnic_instance_t \<Rightarrow> bytes list"
where
  "commit_h_x4 pr Cs params =
     hash_squeeze_x4 pr
       (hash_final_x4
          (foldl (\<lambda>ctx i. hash_update_x4_4 ctx (hashes (Cs ! 0) ! i) (hashes (Cs ! 1) ! i)
                              (hashes (Cs ! 2) ! i) (hashes (Cs ! 3) ! i) (digest_size params))
             (hash_init_x4 (digest_size params)) [0..<num_MPC_parties params]))
       (digest_size params)"

definition commit_v ::
  "'z prims_scheme \<Rightarrow> bytes \<Rightarrow> msgs_t \<Rightarrow> picnic_instance_t \<Rightarrow> bytes"
where
  "commit_v pr inp ms params =
     hash_squeeze pr
       (hash_final
          (foldl (\<lambda>ctx i. hash_update ctx (msgs_msgs ms ! i) (numBytes (msgs_pos ms)))
             (hash_update (hash_init (digest_size params)) inp (input_output_size params))
             [0..<num_MPC_parties params]))
       (digest_size params)"

definition commit_v_x4 ::
  "'z prims_scheme \<Rightarrow> bytes list \<Rightarrow> msgs_t list \<Rightarrow> picnic_instance_t \<Rightarrow> bytes list"
where
  "commit_v_x4 pr inps mss params =
     hash_squeeze_x4 pr
       (hash_final_x4
          (foldl (\<lambda>ctx i. hash_update_x4_4 ctx (msgs_msgs (mss ! 0) ! i) (msgs_msgs (mss ! 1) ! i)
                              (msgs_msgs (mss ! 2) ! i) (msgs_msgs (mss ! 3) ! i)
                              (numBytes (msgs_pos (mss ! 0))))
             (hash_update_x4 (hash_init_x4 (digest_size params)) inps (input_output_size params))
             [0..<num_MPC_parties params]))
       (digest_size params)"

definition setAuxBits ::
  "('tree, 'mzd, 'z) protocol_prims_scheme \<Rightarrow> randomTape_t \<Rightarrow> bytes \<Rightarrow> picnic_instance_t \<Rightarrow>
     randomTape_t"
where
  "setAuxBits pr tapes inp params =
     (let last = num_MPC_parties params - 1;
          n = lowmc_n (lowmc params)
      in tapes\<lparr>tape := (tape tapes)[last :=
           foldl (\<lambda>tp j.
              foldl (\<lambda>tp i. setBit pr tp (n + n * 2 * j + i) (getBit pr inp (j * n + i)))
                tp [0..<n])
             (tape tapes ! last) [0..<lowmc_r (lowmc params)]]\<rparr>)"

text \<open>\<^verbatim>\<open>HCP\<close>: the digest, and the two lists when \<^verbatim>\<open>expandChallenge\<close> returns.\<close>

definition HCP_digest ::
  "'z prims_scheme \<Rightarrow> commitments_t \<Rightarrow> bytes \<Rightarrow> bytes \<Rightarrow> bytes \<Rightarrow> bytes \<Rightarrow> bytes \<Rightarrow> nat \<Rightarrow>
     picnic_instance_t \<Rightarrow> bytes"
where
  "HCP_digest pr Ch hCv slt pubKey plaintext message messageByteLength params =
     (let ctx0 = foldl (\<lambda>ctx t. hash_update ctx (hashes Ch ! t) (digest_size params))
                   (hash_init (digest_size params)) [0..<num_rounds params];
          ctx1 = hash_update ctx0 hCv (digest_size params);
          ctx2 = hash_update ctx1 slt SALT_SIZE;
          ctx3 = hash_update ctx2 pubKey (input_output_size params);
          ctx4 = hash_update ctx3 plaintext (input_output_size params);
          ctx5 = hash_update ctx4 message messageByteLength
      in hash_squeeze pr (hash_final ctx5) (digest_size params))"

definition HCP ::
  "'z prims_scheme \<Rightarrow> commitments_t \<Rightarrow> bytes \<Rightarrow> bytes \<Rightarrow> bytes \<Rightarrow> bytes \<Rightarrow> bytes \<Rightarrow> nat \<Rightarrow>
     picnic_instance_t \<Rightarrow> (bytes \<times> u16 list \<times> u16 list) option"
where
  "HCP pr Ch hCv slt pubKey plaintext message messageByteLength params =
     (let sigH = HCP_digest pr Ch hCv slt pubKey plaintext message messageByteLength params
      in case expandChallenge pr params sigH of
           None \<Rightarrow> None
         | Some (cC, cP) \<Rightarrow> Some (sigH, cC, cP))"

section \<open>Verification\<close>

text \<open>Loops with an early exit: the first failure ends the loop and is the result.\<close>

fun for_each :: "('a \<Rightarrow> outcome + 'b) \<Rightarrow> 'a list \<Rightarrow> outcome + 'b list" where
  "for_each f [] = Inr []"
| "for_each f (x # xs) = sum_bind (f x) (\<lambda>y. sum_bind (for_each f xs) (\<lambda>ys. Inr (y # ys)))"

fun fold_each :: "('s \<Rightarrow> 'a \<Rightarrow> outcome + 's) \<Rightarrow> 's \<Rightarrow> 'a list \<Rightarrow> outcome + 's" where
  "fold_each f s [] = Inr s"
| "fold_each f s (x # xs) = sum_bind (f s x) (\<lambda>s'. fold_each f s' xs)"

text \<open>The loop \<^verbatim>\<open>for (j = 0; j < num_MPC_parties; j += 4) commit_x4(C.hashes + j, ...)\<close>
  of signing and verification: the commitments to the seeds of all parties.\<close>

definition commit_seeds_x4 ::
  "('tree, 'mzd, 'z) protocol_prims_scheme \<Rightarrow> 'tree \<Rightarrow> bytes \<Rightarrow> nat \<Rightarrow> picnic_instance_t \<Rightarrow>
     bytes list"
where
  "commit_seeds_x4 pr seed slt t params =
     concat (map (\<lambda>g.
         let j = 4 * g
         in commit_x4 pr [getLeaf pr seed j, getLeaf pr seed (j + 1), getLeaf pr seed (j + 2),
                          getLeaf pr seed (j + 3)] slt t j params)
       [0..<num_MPC_parties params div 4])"

text \<open>
  The first part of an iteration of the first loop of \<^verbatim>\<open>verify_picnic3\<close>: the seeds of
  round \<open>t\<close>, its tapes, and the commitments written to \<^verbatim>\<open>C[t % 4]\<close>, every entry
  of which is written. A proof that was never allocated is not read, and the commitment
  of the unopened party is not written past the array; \<^verbatim>\<open>hashes[last]\<close> is past the
  array when there is no party. When \<^verbatim>\<open>generateSeeds\<close>, \<^verbatim>\<open>createTree\<close> or
  \<^verbatim>\<open>reconstructSeeds\<close> fails, the code sets \<^verbatim>\<open>ret = -1\<close> and jumps to \<^verbatim>\<open>Exit\<close>, where
  \<^verbatim>\<open>freeRandomTape\<close> is called on every entry of \<^verbatim>\<open>tapes\<close>; the array comes from
  \<^verbatim>\<open>malloc\<close> and the entries from \<open>t\<close> on were never created, so their pointers are
  read uninitialised: undefined behaviour.
\<close>

definition verify_round_commitments ::
  "('tree, 'mzd, 'z) protocol_prims_scheme \<Rightarrow> signature2_t \<Rightarrow> 'tree \<Rightarrow> picnic_instance_t \<Rightarrow> nat \<Rightarrow>
     outcome + (randomTape_t \<times> commitments_t)"
where
  "verify_round_commitments pr sg iSeedsTree params t =
     (let last = num_MPC_parties params - 1;
          opened = contains (challengeC sg) (num_opened_rounds params) (of_nat t)
      in
      sum_bind
        (if \<not> opened then
           (case generateSeeds pr (num_MPC_parties params) (getLeaf pr iSeedsTree t) (salt sg) t
                   params of
              None \<Rightarrow> Inl Undefined_behaviour
            | Some seed \<Rightarrow> Inr seed)
         else
           (case createTree pr (num_MPC_parties params) (seed_size params) of
              None \<Rightarrow> Inl Undefined_behaviour
            | Some seed0 \<Rightarrow>
                (case proofs sg ! t of
                   None \<Rightarrow> Inl Undefined_behaviour
                 | Some prf \<Rightarrow>
                     let hideList = [P_t_of params (challengeC sg) (challengeP sg) t];
                         (ret, seed) = reconstructSeeds pr seed0 hideList 1 (seedInfo prf)
                                         (length (seedInfo prf)) (salt sg) t params
                     in if ret \<noteq> 0 then Inl Undefined_behaviour else Inr seed)))
        (\<lambda>seed.
      case getLeaves pr seed of
        None \<Rightarrow> Inl Undefined_behaviour
      | Some leaves \<Rightarrow>
          let tapes0 = createRandomTapes pr leaves (salt sg) t params;
              Cx = commit_seeds_x4 pr seed (salt sg) t params
          in if \<not> opened then
               let (tapes1, input_masks) = computeAuxTape pr tapes0 params
               in if num_MPC_parties params = 0 then Inl Undefined_behaviour
                  else Inr (tapes1,
                       \<lparr>hashes = Cx[last := commit pr (getLeaf pr seed last)
                                             (Some (aux_bits tapes1)) (salt sg) t last params]\<rparr>)
             else
               (case proofs sg ! t of
                  None \<Rightarrow> Inl Undefined_behaviour
                | Some prf \<Rightarrow>
                    let unopened = unat (P_t_of params (challengeC sg) (challengeP sg) t);
                        C1 = (if last \<noteq> unopened
                              then Cx[last := commit pr (getLeaf pr seed last) (Some (aux prf))
                                                (salt sg) t last params]
                              else Cx)
                    in if num_MPC_parties params \<le> unopened then Inl Undefined_behaviour
                       else Inr (tapes0,
                                 \<lparr>hashes = C1[unopened := take (digest_size params) (C prf)]\<rparr>))))"

text \<open>
  One iteration of the first loop: the state is the tapes of the rounds done, the four
  buffers \<^verbatim>\<open>C[0..3]\<close> and \<^verbatim>\<open>Ch.hashes\<close>.
\<close>

definition verify_commit_step ::
  "('tree, 'mzd, 'z) protocol_prims_scheme \<Rightarrow> signature2_t \<Rightarrow> 'tree \<Rightarrow> picnic_instance_t \<Rightarrow>
     randomTape_t list \<times> commitments_t list \<times> bytes list \<Rightarrow> nat \<Rightarrow>
     outcome + (randomTape_t list \<times> commitments_t list \<times> bytes list)"
where
  "verify_commit_step pr sg iSeedsTree params st t =
     sum_bind (verify_round_commitments pr sg iSeedsTree params t) (\<lambda>(tp, Ct).
       let (tapes, C4, Ch) = st;
           C4' = C4[t mod 4 := Ct];
           Ch' = (if num_rounds params div 4 * 4 \<le> t
                  then Ch[t := commit_h pr (C4' ! (t mod 4)) params]
                  else if (t + 1) mod 4 = 0 then
                    let t4 = t div 4 * 4;
                        d = commit_h_x4 pr C4' params
                    in Ch[t4 := d ! 0, t4 + 1 := d ! 1, t4 + 2 := d ! 2, t4 + 3 := d ! 3]
                  else Ch)
       in Inr (tapes @ [tp], C4', Ch'))"

text \<open>One iteration of the loop over the opened rounds: the state is the tapes, the one
  \<^verbatim>\<open>msgs\<close> structure and \<^verbatim>\<open>Cv.hashes\<close>.\<close>

definition verify_online_step ::
  "('tree, 'mzd, 'z) protocol_prims_scheme \<Rightarrow> signature2_t \<Rightarrow> bytes \<Rightarrow> 'mzd \<Rightarrow> picnic_instance_t \<Rightarrow>
     randomTape_t list \<times> msgs_t \<times> bytes option list \<Rightarrow> nat \<Rightarrow>
     outcome + (randomTape_t list \<times> msgs_t \<times> bytes option list)"
where
  "verify_online_step pr sg pubKey m_plaintext params st i =
     (let (tapes, ms, Cv) = st;
          t = unat (challengeC sg ! i);
          unopened = unat (challengeP sg ! i)
      in if num_rounds params \<le> t \<or> num_MPC_parties params \<le> unopened
         then Inl Undefined_behaviour
         else
           (case proofs sg ! t of
              None \<Rightarrow> Inl Undefined_behaviour
            | Some prf \<Rightarrow>
                let tp0 = setAuxBits pr (tapes ! t) (aux prf) params;
                    tp1 = tp0\<lparr>tape := (tape tp0)[unopened :=
                               replicate (2 * view_size params) 0
                                 @ drop (2 * view_size params) (tape tp0 ! unopened)]\<rparr>;
                    ms1 = ms\<lparr>msgs_msgs := (msgs_msgs ms)[unopened :=
                                 take (view_size params) (msgs prf)
                                   @ drop (view_size params) (msgs_msgs ms ! unopened)],
                             msgs_unopened := int unopened, msgs_pos := 0\<rparr>;
                    m_maskedKey = mzd_from_char_array pr (input prf) (input_output_size params);
                    (ret, tp2, ms2) = simulateOnline pr m_maskedKey tp1 ms1 m_plaintext pubKey params
                in if ret \<noteq> 0 then Inl (Returns (- 1))
                   else Inr (tapes[t := tp2], ms2,
                             Cv[t := Some (commit_v pr (input prf) ms2 params)])))"

text \<open>
  \<^verbatim>\<open>verify_picnic3\<close>. The round counters are a \<^verbatim>\<open>uint16_t\<close> and a \<^verbatim>\<open>uint8_t\<close>: with more
  rounds than the counter holds the loop does not end by its condition, and the model
  does not follow it further (\<open>None\<close>, as when \<^verbatim>\<open>expandChallenge\<close> does not return).
  The arrays \<^verbatim>\<open>challengeC\<close>, \<^verbatim>\<open>challengeP\<close> and \<^verbatim>\<open>proofs\<close> of the signature hold
  \<^verbatim>\<open>num_opened_rounds\<close>, \<^verbatim>\<open>num_opened_rounds\<close> and \<^verbatim>\<open>num_rounds\<close> entries.
\<close>

definition verify_picnic3 ::
  "('tree, 'mzd, 'z) protocol_prims_scheme \<Rightarrow> signature2_t \<Rightarrow> bytes \<Rightarrow> bytes \<Rightarrow> bytes \<Rightarrow> nat \<Rightarrow>
     picnic_instance_t \<Rightarrow> outcome option"
where
  "verify_picnic3 pr sg pubKey plaintext message messageByteLength params =
     (if 65535 < num_rounds params \<or> 255 < num_opened_rounds params then None
      else if num_MPC_parties params mod 4 \<noteq> 0
              \<or> length (challengeC sg) \<noteq> num_opened_rounds params
              \<or> length (challengeP sg) \<noteq> num_opened_rounds params
              \<or> length (proofs sg) \<noteq> num_rounds params
           then Some Undefined_behaviour
      else
      case allocateMsgsVerify pr params of
        None \<Rightarrow> Some (Returns (- 1))
      | Some ms0 \<Rightarrow>
      case createTree pr (num_rounds params) (digest_size params) of
        None \<Rightarrow> Some (Returns (- 1))
      | Some treeCv \<Rightarrow>
      case createTree pr (num_rounds params) (seed_size params) of
        None \<Rightarrow> Some (Returns (- 1))
      | Some iSeedsTree0 \<Rightarrow>
      let (ret, iSeedsTree) =
            reconstructSeeds pr iSeedsTree0 (challengeC sg) (num_opened_rounds params)
              (iSeedInfo sg) (length (iSeedInfo sg)) (salt sg) 0 params
      in if ret \<noteq> 0 then Some (Returns (- 1)) else
      let m_plaintext = mzd_from_char_array pr plaintext (input_output_size params)
      in
      case fold_each (verify_commit_step pr sg iSeedsTree params)
             ([], replicate 4 \<lparr>hashes = replicate (num_MPC_parties params) []\<rparr>,
              replicate (num_rounds params) [])
             [0..<num_rounds params] of
        Inl e \<Rightarrow> Some e
      | Inr (tapes, C4, Ch) \<Rightarrow>
      let Cv0 = map (\<lambda>t. if \<not> contains (challengeC sg) (num_opened_rounds params) (of_nat t)
                         then None else Some [])
                  [0..<num_rounds params]
      in
      case fold_each (verify_online_step pr sg pubKey m_plaintext params) (tapes, ms0, Cv0)
             [0..<num_opened_rounds params] of
        Inl e \<Rightarrow> Some e
      | Inr (tapes', ms', Cv) \<Rightarrow>
      let missingLeavesSize = size_sub (num_rounds params) (num_opened_rounds params);
          missingLeaves = getMissingLeavesList (challengeC sg) params;
          (ret1, treeCv1) = addMerkleNodes pr treeCv missingLeaves missingLeavesSize
                              (cvInfo sg) (length (cvInfo sg))
      in if ret1 \<noteq> 0 then Some (Returns (- 1)) else
      let (ret2, treeCv2) = verifyMerkleTree pr treeCv1 Cv (salt sg) params
      in if ret2 \<noteq> 0 then Some (Returns (- 1)) else
      case HCP pr \<lparr>hashes = Ch\<rparr> (tree_nodes pr treeCv2) (salt sg) pubKey plaintext message
             messageByteLength params of
        None \<Rightarrow> None
      | Some (challenge', cC', cP') \<Rightarrow>
          if take (digest_size params) (challenge sg) \<noteq> take (digest_size params) challenge'
          then Some (Returns (- 1))
          else Some (Returns 0))"

text \<open>\<^verbatim>\<open>impl_verify_picnic3\<close>; \<open>signature\<close> is the \<^verbatim>\<open>signature_len\<close> bytes handed in.\<close>

definition impl_verify_picnic3 ::
  "('tree, 'mzd, 'z) protocol_prims_scheme \<Rightarrow> picnic_instance_t \<Rightarrow> bytes \<Rightarrow> bytes \<Rightarrow> bytes \<Rightarrow> nat \<Rightarrow>
     bytes \<Rightarrow> outcome option"
where
  "impl_verify_picnic3 pr instance plaintext public_key msg msglen signature =
     (case allocateSignature2 pr instance of
        None \<Rightarrow> Some (Returns (- 1))
      | Some sig0 \<Rightarrow>
          (case deserializeSignature2 pr instance signature of
             None \<Rightarrow> None
           | Some (Inl e) \<Rightarrow> Some e
           | Some (Inr sg) \<Rightarrow> verify_picnic3 pr sg public_key plaintext msg msglen instance))"


section \<open>Signing\<close>

definition computeSaltAndRootSeed ::
  "'z prims_scheme \<Rightarrow> nat \<Rightarrow> bytes \<Rightarrow> bytes \<Rightarrow> bytes \<Rightarrow> bytes \<Rightarrow> nat \<Rightarrow> picnic_instance_t \<Rightarrow> bytes"
where
  "computeSaltAndRootSeed pr saltAndRootLength privateKey pubKey plaintext message
       messageByteLength params =
     (let ctx0 = hash_init (digest_size params);
          ctx1 = hash_update ctx0 privateKey (input_output_size params);
          ctx2 = hash_update ctx1 message messageByteLength;
          ctx3 = hash_update ctx2 pubKey (input_output_size params);
          ctx4 = hash_update ctx3 plaintext (input_output_size params);
          ctx5 = hash_update_uint16_le ctx4 (of_nat (lowmc_n (lowmc params)))
      in hash_squeeze pr (hash_final ctx5) saltAndRootLength)"

text \<open>
  What the specification has hashed for the salt and the root seed:
  \<open>privateKey \<parallel> message \<parallel> pubKey \<parallel> plaintext \<parallel> n\<close>, the three key-sized inputs being
  \<^verbatim>\<open>input_output_size\<close> bytes and \<open>n\<close> a little-endian \<^verbatim>\<open>uint16_t\<close>.
\<close>

definition salt_and_seed_input ::
  "picnic_instance_t \<Rightarrow> bytes \<Rightarrow> bytes \<Rightarrow> bytes \<Rightarrow> bytes \<Rightarrow> nat \<Rightarrow> bytes"
where
  "salt_and_seed_input params privateKey pubKey plaintext message messageByteLength =
     take (input_output_size params) privateKey @ take messageByteLength message
       @ take (input_output_size params) pubKey @ take (input_output_size params) plaintext
       @ [ucast (of_nat (lowmc_n (lowmc params)) :: u16),
          ucast (drop_bit 8 (of_nat (lowmc_n (lowmc params)) :: u16))]"

text \<open>\<^verbatim>\<open>initialize_seeds_tree\<close>: the tree, if it could be generated, and the signature
  with its salt set.\<close>

definition initialize_seeds_tree ::
  "('tree, 'mzd, 'z) protocol_prims_scheme \<Rightarrow> bytes \<Rightarrow> bytes \<Rightarrow> bytes \<Rightarrow> bytes \<Rightarrow> nat \<Rightarrow>
     signature2_t \<Rightarrow> picnic_instance_t \<Rightarrow> 'tree option \<times> signature2_t"
where
  "initialize_seeds_tree pr privateKey pubKey plaintext message messageByteLength sg params =
     (let saltAndRoot = computeSaltAndRootSeed pr (seed_size params + SALT_SIZE) privateKey
                          pubKey plaintext message messageByteLength params;
          sg' = sg\<lparr>salt := take SALT_SIZE saltAndRoot\<rparr>
      in (generateSeeds pr (num_rounds params) (drop SALT_SIZE saltAndRoot) (salt sg') 0 params,
          sg'))"

text \<open>An iteration of the first loop of \<^verbatim>\<open>sign_picnic3\<close>: \<^verbatim>\<open>seeds[t]\<close>, \<^verbatim>\<open>tapes[t]\<close>,
  \<^verbatim>\<open>inputs[t]\<close> and \<^verbatim>\<open>C[t]\<close>. With no party \<^verbatim>\<open>C[t].hashes[last]\<close> is past the
  array. Here \<^verbatim>\<open>tapes\<close> and \<^verbatim>\<open>seeds\<close> come from \<^verbatim>\<open>calloc\<close>, and \<^verbatim>\<open>Exit\<close> frees null
  pointers when \<^verbatim>\<open>generateSeeds\<close> fails.\<close>

definition sign_round_commitments ::
  "('tree, 'mzd, 'z) protocol_prims_scheme \<Rightarrow> bytes \<Rightarrow> bytes \<Rightarrow> picnic_instance_t \<Rightarrow> nat \<Rightarrow>
     outcome + ('tree \<times> randomTape_t \<times> bytes \<times> commitments_t)"
where
  "sign_round_commitments pr iSeeds slt params t =
     (case generateSeeds pr (num_MPC_parties params) (drop (t * seed_size params) iSeeds) slt t
             params of
        None \<Rightarrow> Inl (Returns (- 1))
      | Some seed \<Rightarrow>
          (case getLeaves pr seed of
             None \<Rightarrow> Inl Undefined_behaviour
           | Some leaves \<Rightarrow>
               let tapes0 = createRandomTapes pr leaves slt t params;
                   (tapes1, input_masks) = computeAuxTape pr tapes0 params;
                   Cx = commit_seeds_x4 pr seed slt t params;
                   last = num_MPC_parties params - 1
               in if num_MPC_parties params = 0 then Inl Undefined_behaviour
                  else Inr (seed, tapes1, input_masks,
                       \<lparr>hashes = Cx[last := commit pr (getLeaf pr seed last)
                                             (Some (aux_bits tapes1)) slt t last params]\<rparr>)))"

text \<open>An iteration of the second loop: the masked key left in \<^verbatim>\<open>inputs[t]\<close>, and
  \<^verbatim>\<open>tapes[t]\<close> and \<^verbatim>\<open>msgs[t]\<close> after the simulation.\<close>

definition sign_online_round ::
  "('tree, 'mzd, 'z) protocol_prims_scheme \<Rightarrow> bytes \<Rightarrow> bytes \<Rightarrow> 'mzd \<Rightarrow> picnic_instance_t \<Rightarrow>
     bytes \<Rightarrow> randomTape_t \<Rightarrow> msgs_t \<Rightarrow> outcome + (bytes \<times> randomTape_t \<times> msgs_t)"
where
  "sign_online_round pr privateKey pubKey m_plaintext params inp tapes ms =
     (let maskedKey0 = xor_byte_array inp privateKey (input_output_size params)
                         @ drop (input_output_size params) inp;
          maskedKey = foldl (\<lambda>b i. setBit pr b i False) maskedKey0
                        [lowmc_n (lowmc params)..<input_output_size params * 8];
          m_maskedKey = mzd_from_char_array pr maskedKey (input_output_size params);
          (rv, tapes', ms') = simulateOnline pr m_maskedKey tapes ms m_plaintext pubKey params
      in if rv \<noteq> 0 then Inl (Returns (- 1)) else Inr (maskedKey, tapes', ms'))"

text \<open>The two loops that fill \<^verbatim>\<open>Ch.hashes\<close> and \<^verbatim>\<open>Cv.hashes\<close>, four rounds at a time
  and then singly.\<close>

definition sign_Ch ::
  "'z prims_scheme \<Rightarrow> commitments_t list \<Rightarrow> picnic_instance_t \<Rightarrow> bytes list"
where
  "sign_Ch pr Cs params =
     concat (map (\<lambda>g. commit_h_x4 pr (drop (4 * g) Cs) params) [0..<num_rounds params div 4])
       @ map (\<lambda>t. commit_h pr (Cs ! t) params)
           [num_rounds params div 4 * 4..<num_rounds params]"

definition sign_Cv ::
  "'z prims_scheme \<Rightarrow> bytes list \<Rightarrow> msgs_t list \<Rightarrow> picnic_instance_t \<Rightarrow> bytes list"
where
  "sign_Cv pr inputs mss params =
     concat (map (\<lambda>g. commit_v_x4 pr (drop (4 * g) inputs) (drop (4 * g) mss) params)
               [0..<num_rounds params div 4])
       @ map (\<lambda>t. commit_v pr (inputs ! t) (mss ! t) params)
           [num_rounds params div 4 * 4..<num_rounds params]"

text \<open>The proof of an opened round \<open>t\<close>, as the last loop assembles it.\<close>

definition sign_proof ::
  "('tree, 'mzd, 'z) protocol_prims_scheme \<Rightarrow> 'tree \<Rightarrow> randomTape_t \<Rightarrow> bytes \<Rightarrow> msgs_t \<Rightarrow>
     u16 list \<Rightarrow> u16 list \<Rightarrow> bytes \<Rightarrow> picnic_instance_t \<Rightarrow> nat \<Rightarrow> proof2_t"
where
  "sign_proof pr seed tapes inp ms cC cP slt params t =
     (let P = P_t_of params cC cP t;
          p0 = (allocateProof2 pr params)\<lparr>unOpenedIndex := P\<rparr>;
          p1 = p0\<lparr>seedInfo := revealSeeds pr seed [P] 1
                                 (num_MPC_parties params * seed_size params) params\<rparr>;
          p2 = (if not_last_party params P
                then p1\<lparr>aux := take (view_size params) (aux_bits tapes)\<rparr>
                else p1);
          p3 = p2\<lparr>input := take (input_output_size params) inp,
                  msgs := take (view_size params) (msgs_msgs ms ! unat P)\<rparr>
      in p3\<lparr>C := (if \<not> not_last_party params (unOpenedIndex p3)
                  then commit pr (getLeaf pr seed (unat (unOpenedIndex p3)))
                         (Some (aux_bits tapes)) slt t (unat (unOpenedIndex p3)) params
                  else commit pr (getLeaf pr seed (unat (unOpenedIndex p3))) None slt t
                         (unat (unOpenedIndex p3)) params)\<rparr>)"

text \<open>
  \<^verbatim>\<open>sign_picnic3\<close>: the signature filled in, when the C returns 0. The function asserts
  that \<^verbatim>\<open>num_MPC_parties\<close> is a multiple of four. The second loop counts the rounds in a
  \<^verbatim>\<open>uint16_t\<close>. The arrays the function allocates with \<^verbatim>\<open>calloc\<close> and fills itself
  (\<^verbatim>\<open>tapes\<close>, \<^verbatim>\<open>seeds\<close>, \<^verbatim>\<open>C\<close>, \<^verbatim>\<open>inputs\<close>, \<^verbatim>\<open>Ch\<close>, \<^verbatim>\<open>Cv\<close>) are the lists of what it
  writes to them.
\<close>

definition sign_picnic3 ::
  "('tree, 'mzd, 'z) protocol_prims_scheme \<Rightarrow> bytes \<Rightarrow> bytes \<Rightarrow> bytes \<Rightarrow> bytes \<Rightarrow> nat \<Rightarrow>
     signature2_t \<Rightarrow> picnic_instance_t \<Rightarrow> (outcome + signature2_t) option"
where
  "sign_picnic3 pr privateKey pubKey plaintext message messageByteLength sg params =
     (if num_MPC_parties params mod 4 \<noteq> 0 \<or> length (proofs sg) \<noteq> num_rounds params
      then Some (Inl Undefined_behaviour)
      else
      let (tree_opt, sg1) = initialize_seeds_tree pr privateKey pubKey plaintext message
                              messageByteLength sg params
      in
      case tree_opt of
        None \<Rightarrow> Some (Inl (Returns (- 1)))
      | Some iSeedsTree \<Rightarrow>
      case getLeaves pr iSeedsTree of
        None \<Rightarrow> Some (Inl (Returns (- 1)))
      | Some iSeeds \<Rightarrow>
      case allocateMsgs pr params of
        None \<Rightarrow> Some (Inl (Returns (- 1)))
      | Some msgs0 \<Rightarrow>
      let m_plaintext = mzd_from_char_array pr plaintext (input_output_size params)
      in
      case for_each (sign_round_commitments pr iSeeds (salt sg1) params) [0..<num_rounds params] of
        Inl e \<Rightarrow> Some (Inl e)
      | Inr rounds \<Rightarrow>
      if 65535 < num_rounds params then None else
      case for_each (\<lambda>t. case rounds ! t of (seed, tapes, inp, Ct) \<Rightarrow>
                           sign_online_round pr privateKey pubKey m_plaintext params inp tapes
                             (msgs0 ! t))
             [0..<num_rounds params] of
        Inl e \<Rightarrow> Some (Inl e)
      | Inr online \<Rightarrow>
      let seeds = map fst rounds;
          Cs = map (\<lambda>(seed, tapes, inp, Ct). Ct) rounds;
          inputs = map fst online;
          tapes = map (\<lambda>(inp, tapes, ms). tapes) online;
          mss = map (\<lambda>(inp, tapes, ms). ms) online;
          Ch = sign_Ch pr Cs params;
          Cv = sign_Cv pr inputs mss params
      in
      case createTree pr (num_rounds params) (digest_size params) of
        None \<Rightarrow> Some (Inl (Returns (- 1)))
      | Some treeCv0 \<Rightarrow>
      let treeCv = buildMerkleTree pr treeCv0 (map Some Cv) (salt sg1) params
      in
      case HCP pr \<lparr>hashes = Ch\<rparr> (tree_nodes pr treeCv) (salt sg1) pubKey plaintext message
             messageByteLength params of
        None \<Rightarrow> None
      | Some (sigH, cC, cP) \<Rightarrow>
      let missingLeavesSize = size_sub (num_rounds params) (num_opened_rounds params);
          missingLeaves = getMissingLeavesList cC params
      in
      case openMerkleTree pr treeCv missingLeaves missingLeavesSize of
        None \<Rightarrow> Some (Inl (Returns (- 1)))
      | Some cvi \<Rightarrow>
      let sg2 = sg1\<lparr>challenge := sigH, challengeC := cC, challengeP := cP, cvInfo := cvi,
                    iSeedInfo := revealSeeds pr iSeedsTree cC (num_opened_rounds params)
                                   (num_rounds params * seed_size params) params\<rparr>
      in Some (Inr (sg2\<lparr>proofs :=
           map (\<lambda>t. if contains cC (num_opened_rounds params) (of_nat t)
                     then Some (sign_proof pr (seeds ! t) (tapes ! t) (inputs ! t) (mss ! t)
                                  cC cP (salt sg2) params t)
                     else proofs sg2 ! t)
             [0..<num_rounds params]\<rparr>)))"

text \<open>
  \<^verbatim>\<open>impl_sign_picnic3\<close>. \<open>signature\<close> is the caller's buffer and \<open>signature_len\<close> the
  capacity the caller states in \<^verbatim>\<open>*signature_len\<close>. On success the result is the new
  \<^verbatim>\<open>*signature_len\<close> (the \<^verbatim>\<open>int\<close> of \<^verbatim>\<open>serializeSignature2\<close> converted to \<^verbatim>\<open>size_t\<close>) and
  the buffer. \<open>sign_and_serialize\<close> is the body after the allocation of \<^verbatim>\<open>sig\<close>.
\<close>

definition sign_and_serialize ::
  "('tree, 'mzd, 'z) protocol_prims_scheme \<Rightarrow> signature2_t \<Rightarrow> picnic_instance_t \<Rightarrow> bytes \<Rightarrow> bytes \<Rightarrow>
     bytes \<Rightarrow> bytes \<Rightarrow> nat \<Rightarrow> bytes \<Rightarrow> nat \<Rightarrow> (outcome + (nat \<times> bytes)) option"
where
  "sign_and_serialize pr sig0 instance plaintext private_key public_key msg msglen signature
       signature_len =
     (case sign_picnic3 pr private_key public_key plaintext msg msglen sig0 instance of
        None \<Rightarrow> None
      | Some (Inl e) \<Rightarrow> Some (Inl e)
      | Some (Inr sg) \<Rightarrow>
          (case serializeSignature2 sg signature_len instance of
             None \<Rightarrow> None
           | Some (Inl e) \<Rightarrow> Some (Inl e)
           | Some (Inr (ret, out)) \<Rightarrow>
               if length signature < length out then Some (Inl Undefined_behaviour)
               else if ret = - 1 then Some (Inl (Returns (- 1)))
               else Some (Inr (nat (ret mod 2 ^ 64), out @ drop (length out) signature))))"

definition impl_sign_picnic3 ::
  "('tree, 'mzd, 'z) protocol_prims_scheme \<Rightarrow> picnic_instance_t \<Rightarrow> bytes \<Rightarrow> bytes \<Rightarrow> bytes \<Rightarrow>
     bytes \<Rightarrow> nat \<Rightarrow> bytes \<Rightarrow> nat \<Rightarrow> (outcome + (nat \<times> bytes)) option"
where
  "impl_sign_picnic3 pr instance plaintext private_key public_key msg msglen signature
       signature_len =
     (case allocateSignature2 pr instance of
        None \<Rightarrow> Some (Inl (Returns (- 1)))
      | Some sig0 \<Rightarrow>
          sign_and_serialize pr sig0 instance plaintext private_key public_key msg msglen
            signature signature_len)"

section \<open>The wire format, as the specification lays it out\<close>

text \<open>
  The definitions of this section are not translations of code: they state the layout of
  the specification (the concatenation of the fields, the length of each part, what a
  decoded proof looks like), to be compared with what the code computes.
\<close>

definition proof_len :: "picnic_instance_t \<Rightarrow> u16 list \<Rightarrow> u16 list \<Rightarrow> nat \<Rightarrow> nat \<Rightarrow> nat" where
  "proof_len params cC cP seedInfoLen t =
     (if contains cC (num_opened_rounds params) (of_nat t) then
        seedInfoLen
        + (if unat (P_t_of params cC cP t) \<noteq> num_MPC_parties params - 1
           then view_size params else 0)
        + input_output_size params + view_size params + digest_size params
      else 0)"

definition proofs_len :: "picnic_instance_t \<Rightarrow> u16 list \<Rightarrow> u16 list \<Rightarrow> nat \<Rightarrow> nat list \<Rightarrow> nat" where
  "proofs_len params cC cP seedInfoLen ts = sum_list (map (proof_len params cC cP seedInfoLen) ts)"

definition decoded_proof ::
  "'z prims_scheme \<Rightarrow> picnic_instance_t \<Rightarrow> nat \<Rightarrow> u16 \<Rightarrow> proof2_t \<Rightarrow> bool"
where
  "decoded_proof pr params seedInfoLen P_t prf \<longleftrightarrow>
     length (seedInfo prf) = seedInfoLen \<and>
     length (input prf) = input_output_size params \<and>
     length (msgs prf) = view_size params \<and>
     length (C prf) = digest_size params \<and>
     arePaddingBitsZero pr (input prf) (input_output_size params) (lowmc_n (lowmc params))
       = Inr True \<and>
     arePaddingBitsZero pr (msgs prf) (view_size params)
       (3 * lowmc_r (lowmc params) * lowmc_m (lowmc params)) = Inr True \<and>
     (if unat P_t \<noteq> num_MPC_parties params - 1
      then length (aux prf) = view_size params \<and>
           arePaddingBitsZero pr (aux prf) (view_size params)
             (3 * lowmc_r (lowmc params) * lowmc_m (lowmc params)) = Inr True
      else aux prf = aux (allocateProof2 pr params)) \<and>
     unOpenedIndex prf = unOpenedIndex (allocateProof2 pr params)"

definition proof_bytes :: "picnic_instance_t \<Rightarrow> u16 \<Rightarrow> proof2_t \<Rightarrow> bytes" where
  "proof_bytes params P_t prf =
     seedInfo prf @ (if unat P_t \<noteq> num_MPC_parties params - 1 then aux prf else [])
       @ input prf @ msgs prf @ C prf"

definition decoded_entry ::
  "'z prims_scheme \<Rightarrow> picnic_instance_t \<Rightarrow> u16 list \<Rightarrow> u16 list \<Rightarrow> nat \<Rightarrow> nat \<Rightarrow>
     proof2_t option \<Rightarrow> bool"
where
  "decoded_entry pr params cC cP seedInfoLen t p \<longleftrightarrow>
     (if contains cC (num_opened_rounds params) (of_nat t)
      then (\<exists>prf. p = Some prf \<and>
              decoded_proof pr params seedInfoLen (P_t_of params cC cP t) prf)
      else p = None)"

definition entry_bytes ::
  "picnic_instance_t \<Rightarrow> u16 list \<Rightarrow> u16 list \<Rightarrow> nat \<times> proof2_t option \<Rightarrow> bytes"
where
  "entry_bytes params cC cP tp =
     (if contains cC (num_opened_rounds params) (of_nat (fst tp))
      then (case snd tp of None \<Rightarrow> []
            | Some prf \<Rightarrow> proof_bytes params (P_t_of params cC cP (fst tp)) prf)
      else [])"

definition proofs_bytes ::
  "picnic_instance_t \<Rightarrow> u16 list \<Rightarrow> u16 list \<Rightarrow> (nat \<times> proof2_t option) list \<Rightarrow> bytes"
where
  "proofs_bytes params cC cP tps = concat (map (entry_bytes params cC cP) tps)"

definition iSeedInfoLen_of :: "'z prims_scheme \<Rightarrow> picnic_instance_t \<Rightarrow> u16 list \<Rightarrow> nat" where
  "iSeedInfoLen_of pr params cC =
     revealSeedsSize pr (num_rounds params) cC (num_opened_rounds params) params"

definition cvInfoLen_of :: "'z prims_scheme \<Rightarrow> picnic_instance_t \<Rightarrow> u16 list \<Rightarrow> nat" where
  "cvInfoLen_of pr params cC =
     openMerkleTreeSize pr (num_rounds params) (getMissingLeavesList cC params)
       (size_sub (num_rounds params) (num_opened_rounds params)) params"

definition seedInfoLen_of :: "'z prims_scheme \<Rightarrow> picnic_instance_t \<Rightarrow> nat" where
  "seedInfoLen_of pr params = revealSeedsSize pr (num_MPC_parties params) [0] 1 params"

definition plain_len :: "'z prims_scheme \<Rightarrow> picnic_instance_t \<Rightarrow> u16 list \<Rightarrow> u16 list \<Rightarrow> nat" where
  "plain_len pr params cC cP =
     digest_size params + SALT_SIZE + iSeedInfoLen_of pr params cC + cvInfoLen_of pr params cC
       + proofs_len params cC cP (seedInfoLen_of pr params) [0..<num_rounds params]"

definition bytesRequired_of :: "'z prims_scheme \<Rightarrow> picnic_instance_t \<Rightarrow> u16 list \<Rightarrow> u16 list \<Rightarrow> nat" where
  "bytesRequired_of pr params cC cP =
     foldl (bytesRequired_step params cC cP (seedInfoLen_of pr params))
       (size_add (size_add (digest_size params + SALT_SIZE) (iSeedInfoLen_of pr params cC))
          (cvInfoLen_of pr params cC))
       [0..<num_rounds params]"

definition padding_failure :: "outcome \<Rightarrow> bool" where
  "padding_failure e \<longleftrightarrow> e = Returns (- 1) \<or> e = Undefined_behaviour"

definition wf_proof ::
  "'z prims_scheme \<Rightarrow> picnic_instance_t \<Rightarrow> nat \<Rightarrow> u16 \<Rightarrow> proof2_t \<Rightarrow> bool"
where
  "wf_proof pr params seedInfoLen P_t q \<longleftrightarrow>
     length (seedInfo q) = seedInfoLen \<and>
     length (input q) = input_output_size params \<and>
     length (msgs q) = view_size params \<and>
     length (C q) = digest_size params \<and>
     arePaddingBitsZero pr (input q) (input_output_size params) (lowmc_n (lowmc params))
       = Inr True \<and>
     arePaddingBitsZero pr (msgs q) (view_size params)
       (3 * lowmc_r (lowmc params) * lowmc_m (lowmc params)) = Inr True \<and>
     (unat P_t = num_MPC_parties params - 1 \<or>
      length (aux q) = view_size params \<and>
      arePaddingBitsZero pr (aux q) (view_size params)
        (3 * lowmc_r (lowmc params) * lowmc_m (lowmc params)) = Inr True)"

definition wf_entry ::
  "'z prims_scheme \<Rightarrow> picnic_instance_t \<Rightarrow> u16 list \<Rightarrow> u16 list \<Rightarrow> nat \<Rightarrow> nat \<Rightarrow>
     proof2_t option \<Rightarrow> bool"
where
  "wf_entry pr params cC cP seedInfoLen t p \<longleftrightarrow>
     (if contains cC (num_opened_rounds params) (of_nat t)
      then (case p of None \<Rightarrow> False
            | Some q \<Rightarrow> wf_proof pr params seedInfoLen (P_t_of params cC cP t) q)
      else p = None)"

definition decoder_view :: "'z prims_scheme \<Rightarrow> picnic_instance_t \<Rightarrow> u16 \<Rightarrow> proof2_t \<Rightarrow> proof2_t" where
  "decoder_view pr params P_t q =
     q\<lparr>aux := (if unat P_t \<noteq> num_MPC_parties params - 1 then aux q
               else aux (allocateProof2 pr params)),
       unOpenedIndex := unOpenedIndex (allocateProof2 pr params)\<rparr>"

definition decoder_view_entry ::
  "'z prims_scheme \<Rightarrow> picnic_instance_t \<Rightarrow> u16 list \<Rightarrow> u16 list \<Rightarrow> nat \<times> proof2_t option \<Rightarrow>
     proof2_t option"
where
  "decoder_view_entry pr params cC cP tp =
     map_option (decoder_view pr params (P_t_of params cC cP (fst tp))) (snd tp)"

definition sig_bytes :: "picnic_instance_t \<Rightarrow> signature2_t \<Rightarrow> bytes" where
  "sig_bytes params sg =
     challenge sg @ salt sg @ iSeedInfo sg @ cvInfo sg
       @ proofs_bytes params (challengeC sg) (challengeP sg)
           (zip [0..<num_rounds params] (proofs sg))"

definition wf_signature :: "'z prims_scheme \<Rightarrow> picnic_instance_t \<Rightarrow> signature2_t \<Rightarrow> bool" where
  "wf_signature pr params sg \<longleftrightarrow>
     length (challenge sg) = digest_size params \<and>
     length (salt sg) = SALT_SIZE \<and>
     expandChallenge pr params (challenge sg) = Some (challengeC sg, challengeP sg) \<and>
     length (iSeedInfo sg) = iSeedInfoLen_of pr params (challengeC sg) \<and>
     iSeedInfoLen_of pr params (challengeC sg) \<noteq> SIZE_MAX \<and>
     length (cvInfo sg) = cvInfoLen_of pr params (challengeC sg) \<and>
     cvInfoLen_of pr params (challengeC sg) \<noteq> SIZE_MAX \<and>
     seedInfoLen_of pr params \<noteq> SIZE_MAX \<and>
     list_all2 (wf_entry pr params (challengeC sg) (challengeP sg) (seedInfoLen_of pr params))
       [0..<num_rounds params] (proofs sg) \<and>
     plain_len pr params (challengeC sg) (challengeP sg) \<le> SIZE_MAX"

definition decoder_view_sig :: "'z prims_scheme \<Rightarrow> picnic_instance_t \<Rightarrow> signature2_t \<Rightarrow> signature2_t" where
  "decoder_view_sig pr params sg =
     sg\<lparr>proofs := map (decoder_view_entry pr params (challengeC sg) (challengeP sg))
                    (zip [0..<num_rounds params] (proofs sg))\<rparr>"

section \<open>Invariants used in the proofs\<close>

text \<open>What the two loops of \<^verbatim>\<open>expandChallenge\<close> keep true of their lists.\<close>

definition okC :: "picnic_instance_t \<Rightarrow> u16 list \<Rightarrow> bool" where
  "okC params cC \<longleftrightarrow> length cC \<le> num_opened_rounds params \<and> distinct cC \<and>
     (\<forall>v\<in>set cC. unat v < num_rounds params)"

definition okP :: "picnic_instance_t \<Rightarrow> u16 list \<Rightarrow> bool" where
  "okP params cP \<longleftrightarrow> length cP \<le> num_opened_rounds params \<and>
     (\<forall>v\<in>set cP. unat v < num_MPC_parties params)"

section \<open>A small instance\<close>

text \<open>
  A small parameter set and simple stand-ins for the collaborators, on which the model
  can be run: sixteen rounds and sixteen parties, two opened rounds, a two-byte digest.
  The bit accessor numbers the bits of a byte from the least significant one. The seed
  opening of this instance is one seed longer when leaf 3 is hidden, so the instance also
  exercises openings whose size depends on the hidden leaf.
\<close>

definition test_xof :: "nat \<Rightarrow> byte option \<Rightarrow> bytes \<Rightarrow> nat \<Rightarrow> byte" where
  "test_xof d p data i =
     of_nat (sum_list (map unat data) * 5 + 7 * i + 3 + d + (case p of None \<Rightarrow> 0 | Some b \<Rightarrow> unat b))"

definition test_getBit :: "bytes \<Rightarrow> nat \<Rightarrow> bool" where
  "test_getBit buf k = bit (buf ! (k div 8)) (k mod 8)"

definition test_check_padding_bits :: "byte \<Rightarrow> nat \<Rightarrow> bool" where
  "test_check_padding_bits b k = (drop_bit (8 - k) b \<noteq> 0)"

definition test_prims :: prims where
  "test_prims = \<lparr>
     xof = test_xof,
     getBit = test_getBit,
     ceil_log2 = (\<lambda>x. if x \<le> 1 then 0 else if x \<le> 2 then 1 else if x \<le> 4 then 2
                     else if x \<le> 8 then 3 else if x \<le> 16 then 4 else 5),
     check_padding_bits = test_check_padding_bits,
     revealSeedsSize = (\<lambda>numLeaves hideList hideLen params.
        if numLeaves < hideLen then SIZE_MAX
        else (numLeaves - hideLen) * seed_size params
             + (if 3 \<in> set (take hideLen hideList) then seed_size params else 0)),
     openMerkleTreeSize = (\<lambda>numLeaves missing missingSize params.
        if numLeaves < missingSize then SIZE_MAX else missingSize * digest_size params),
     allocateProof2 = (\<lambda>params. \<lparr>seedInfo = [], aux = replicate (view_size params) 0,
        C = replicate (digest_size params) 0, input = replicate (input_output_size params) 0,
        msgs = replicate (view_size params) 0, unOpenedIndex = 0\<rparr>)\<rparr>"

definition test_params :: picnic_instance_t where
  "test_params = \<lparr>
     lowmc = \<lparr>lowmc_m = 1, lowmc_n = 5, lowmc_r = 1\<rparr>,
     digest_size = 2, seed_size = 1, num_rounds = 16, num_opened_rounds = 2,
     num_MPC_parties = 16, input_output_size = 1, view_size = 1\<rparr>"




text \<open>A signature of the small instance, as a signer fills it.\<close>

definition test_proof1 :: proof2_t where
  "test_proof1 = \<lparr>seedInfo = replicate 15 3, aux = [5], C = [7, 8], input = [17], msgs = [6],
     unOpenedIndex = 10\<rparr>"

definition test_proof2 :: proof2_t where
  "test_proof2 = \<lparr>seedInfo = replicate 15 4, aux = [0], C = [9, 10], input = [18], msgs = [7],
     unOpenedIndex = 15\<rparr>"

definition test_sig :: signature2_t where
  "test_sig = \<lparr>salt = replicate 32 0xAA, iSeedInfo = replicate 14 1, cvInfo = replicate 28 2,
     challenge = [0x21, 0x43], challengeC = [1, 2], challengeP = [10, 15],
     proofs = [None, Some test_proof1, Some test_proof2, None, None, None, None, None, None, None, None, None, None, None, None, None]\<rparr>"

section \<open>A run of the protocol\<close>

text \<open>
  Stand-ins for all collaborators, with four rounds of four parties of which two rounds
  are opened. The hash stream depends on the domain prefix only, seeds are zero, the
  Merkle tree keeps a zero root, the auxiliary bits are zero and the simulation
  broadcasts zeros.
\<close>

definition toy_params :: picnic_instance_t where
  "toy_params = \<lparr>
     lowmc = \<lparr>lowmc_m = 1, lowmc_n = 5, lowmc_r = 1\<rparr>,
     digest_size = 2, seed_size = 1, num_rounds = 4, num_opened_rounds = 2,
     num_MPC_parties = 4, input_output_size = 1, view_size = 1\<rparr>"

definition toy_setBit :: "bytes \<Rightarrow> nat \<Rightarrow> bool \<Rightarrow> bytes" where
  "toy_setBit b k v =
     b[k div 8 := (if v then set_bit (k mod 8) (b ! (k div 8))
                   else unset_bit (k mod 8) (b ! (k div 8)))]"

definition toy_clear_aux :: "lowmc_parameters_t \<Rightarrow> bytes \<Rightarrow> bytes" where
  "toy_clear_aux lp tp =
     foldl (\<lambda>tp j. foldl (\<lambda>tp i. toy_setBit tp (lowmc_n lp + lowmc_n lp * 2 * j + i) False)
                      tp [0..<lowmc_n lp])
       tp [0..<lowmc_r lp]"

definition toy_prims :: "(bytes, bytes) protocol_prims" where
  "toy_prims = \<lparr>
     xof = (\<lambda>d p data i. case p of None \<Rightarrow> 0x21 | Some b \<Rightarrow> 0x2D),
     getBit = test_getBit,
     ceil_log2 = (\<lambda>x. if x \<le> 1 then 0 else if x \<le> 2 then 1 else if x \<le> 4 then 2
                     else if x \<le> 8 then 3 else if x \<le> 16 then 4 else 5),
     check_padding_bits = test_check_padding_bits,
     revealSeedsSize = (\<lambda>numLeaves hideList hideLen params.
        if numLeaves < hideLen then SIZE_MAX else (numLeaves - hideLen) * seed_size params),
     openMerkleTreeSize = (\<lambda>numLeaves missing missingSize params.
        if numLeaves < missingSize then SIZE_MAX else missingSize * digest_size params),
     allocateProof2 = (\<lambda>params. \<lparr>seedInfo = [], aux = replicate (view_size params) 0,
        C = replicate (digest_size params) 0, input = replicate (input_output_size params) 0,
        msgs = replicate (view_size params) 0, unOpenedIndex = 0\<rparr>),
     setBit = toy_setBit,
     generateSeeds = (\<lambda>n seed slt idx params. Some (replicate (n * seed_size params) 0)),
     createTree = (\<lambda>n dataSize. Some (replicate (n * dataSize) 0)),
     getLeaves = (\<lambda>tr. Some tr),
     getLeaf = (\<lambda>tr j. drop j tr),
     revealSeeds = (\<lambda>tr hideList hideLen outLen params.
        replicate (length tr - hideLen * seed_size params) 0),
     reconstructSeeds = (\<lambda>tr hideList hideLen inp inLen slt idx params. (0, tr)),
     buildMerkleTree = (\<lambda>tr leaves slt params. tr),
     openMerkleTree = (\<lambda>tr missing missingSize. Some (replicate (missingSize * 2) 0)),
     addMerkleNodes = (\<lambda>tr missing missingSize inp inLen. (0, tr)),
     verifyMerkleTree = (\<lambda>tr leaves slt params. (0, tr)),
     tree_nodes = (\<lambda>tr. tr),
     mzd_from_char_array = (\<lambda>b len. take len b),
     mzd_to_char_array = (\<lambda>m len. take len m @ replicate (len - length m) 0),
     lowmc_compute_aux = (\<lambda>lp key tp.
        (key, tp\<lparr>tape := (tape tp)[length (tape tp) - 1 :=
                              toy_clear_aux lp (tape tp ! (length (tape tp) - 1))],
                 aux_bits := replicate (length (aux_bits tp)) 0\<rparr>)),
     simulateOnline = (\<lambda>mk tp ms pt pk params.
        (0, tp, ms\<lparr>msgs_msgs := replicate (num_MPC_parties params)
                                     (replicate (view_size params) 0),
                   msgs_pos := 3 * lowmc_r (lowmc params) * lowmc_m (lowmc params)\<rparr>)),
     allocateRandomTape = (\<lambda>params.
        \<lparr>tape = replicate (num_MPC_parties params) (replicate (2 * view_size params) 0),
         parity_tapes = replicate (2 * view_size params) 0,
         aux_bits = replicate (view_size params) 0, tape_pos = 0, aux_pos = 0\<rparr>),
     allocateMsgs = (\<lambda>params. Some (replicate (num_rounds params)
        \<lparr>msgs_msgs = replicate (num_MPC_parties params) (replicate (view_size params) 0),
         msgs_pos = 0, msgs_unopened = - 1\<rparr>)),
     allocateMsgsVerify = (\<lambda>params. Some
        \<lparr>msgs_msgs = replicate (num_MPC_parties params) (replicate (view_size params) 0),
         msgs_pos = 0, msgs_unopened = - 1\<rparr>),
     allocateSignature2 = (\<lambda>params. Some
        \<lparr>salt = replicate SALT_SIZE 0, iSeedInfo = [], cvInfo = [],
         challenge = replicate (digest_size params) 0,
         challengeC = replicate (num_opened_rounds params) 0,
         challengeP = replicate (num_opened_rounds params) 0,
         proofs = replicate (num_rounds params) None\<rparr>)\<rparr>"

text \<open>
  The signature structure this instance allocates, the one it fills for the private key
  \<open>[3]\<close> (whatever the public key, the plaintext and the message, since its hash ignores
  what it absorbs), and the 55 bytes that signature is serialized to.
\<close>

definition toy_sig0 :: signature2_t where
  "toy_sig0 = \<lparr>salt = replicate 32 0, iSeedInfo = [], cvInfo = [], challenge = [0, 0],
     challengeC = [0, 0], challengeP = [0, 0], proofs = [None, None, None, None]\<rparr>"

definition toy_sig :: signature2_t where
  "toy_sig = \<lparr>salt = replicate 32 0x21, iSeedInfo = [0, 0], cvInfo = [0, 0, 0, 0],
     challenge = [0x21, 0x21], challengeC = [1, 0], challengeP = [1, 3],
     proofs = [Some \<lparr>seedInfo = [0, 0, 0], aux = [0], C = [0x21, 0x21], input = [3], msgs = [0],
                      unOpenedIndex = 3\<rparr>,
               Some \<lparr>seedInfo = [0, 0, 0], aux = [0], C = [0x21, 0x21], input = [3], msgs = [0],
                      unOpenedIndex = 1\<rparr>,
               None, None]\<rparr>"

definition toy_sig_bytes :: bytes where
  "toy_sig_bytes = [0x21, 0x21] @ replicate 32 0x21 @ [0, 0] @ [0, 0, 0, 0]
     @ [0, 0, 0, 3, 0, 0x21, 0x21] @ [0, 0, 0, 0, 3, 0, 0x21, 0x21]"

section \<open>Properties of challenge expansion\<close>

lemma test_params_simps:
  "digest_size test_params = 2" "seed_size test_params = 1" "num_rounds test_params = 16"
  "num_opened_rounds test_params = 2" "num_MPC_parties test_params = 16"
  "input_output_size test_params = 1" "view_size test_params = 1"
  "lowmc_n (lowmc test_params) = 5" "lowmc_m (lowmc test_params) = 1" "lowmc_r (lowmc test_params) = 1"
  by (simp_all add: test_params_def)

lemma test_prims_simps:
  "xof test_prims = test_xof" "getBit test_prims = test_getBit"
  "ceil_log2 test_prims 16 = 4"
  "check_padding_bits test_prims = test_check_padding_bits"
  by (simp_all add: test_prims_def)


lemma contains_iff: "contains xs (length xs) v \<longleftrightarrow> v \<in> set xs"
  by (simp add: contains_def)

lemma appendUnique_cases:
  "appendUnique xs v = (if v \<in> set xs then xs else xs @ [v])"
  by (cases xs) (auto simp: appendUnique_def contains_def)

lemma okC_step:
  "okC params cC \<Longrightarrow> length cC < num_opened_rounds params \<Longrightarrow>
     okC params (if unat c < num_rounds params then appendUnique cC c else cC)"
  by (auto simp: okC_def appendUnique_cases)

lemma chunksC_Cons:
  "chunksC params (c # cs) cC =
     (if length (if unat c < num_rounds params then appendUnique cC c else cC) = num_opened_rounds params
      then (if unat c < num_rounds params then appendUnique cC c else cC)
      else chunksC params cs (if unat c < num_rounds params then appendUnique cC c else cC))"
  by (simp only: chunksC.simps Let_def)

lemma chunksC_ok:
  "okC params cC \<Longrightarrow> length cC < num_opened_rounds params \<Longrightarrow> okC params (chunksC params cs cC)"
proof (induction cs arbitrary: cC)
  case Nil
  then show ?case by simp
next
  case (Cons c cs)
  let ?cC' = "if unat c < num_rounds params then appendUnique cC c else cC"
  have ok': "okC params ?cC'"
    using Cons.prems by (rule okC_step)
  show ?case
  proof (cases "length ?cC' = num_opened_rounds params")
    case True
    then show ?thesis using ok' by (simp only: chunksC_Cons simp_thms if_True)
  next
    case False
    then have "length ?cC' < num_opened_rounds params"
      using ok' unfolding okC_def by linarith
    from Cons.IH [OF ok' this] False show ?thesis by (simp only: chunksC_Cons if_False)
  qed
qed


lemma populateC_ok:
  assumes "populateC pr params h cC = Some y" and "okC params cC"
  shows "okC params (fst y) \<and> length (fst y) = num_opened_rounds params"
proof -
  have "okC params cC \<longrightarrow> okC params (fst y) \<and> length (fst y) = num_opened_rounds params"
  proof (rule populateC.raw_induct [where P = "\<lambda>pr params h cC y. okC params cC \<longrightarrow>
            okC params (fst y) \<and> length (fst y) = num_opened_rounds params", OF _ assms(1)], goal_cases)
    case (1 populateC pr params h cC y)
    show ?case
    proof
      assume ok: "okC params cC"
      show "okC params (fst y) \<and> length (fst y) = num_opened_rounds params"
      proof (cases "length cC < num_opened_rounds params")
        case True
        with 1(2) have "populateC pr params (rehash pr params h)
          (chunksC params
             (bitsToChunks pr (ceil_log2 pr (num_rounds params)) h (digest_size params)) cC) = Some y"
          by (simp only: if_True)
        from 1(1) [OF this] chunksC_ok [OF ok True] show ?thesis by blast
      next
        case False
        with 1(2) have "y = (cC, h)" by (simp only: if_False option.inject)
        with False ok show ?thesis unfolding okC_def by simp
      qed
    qed
  qed
  with assms(2) show ?thesis by blast
qed


lemma chunksP_Cons:
  "chunksP params (c # cs) cP =
     (if length (if unat c < num_MPC_parties params then cP @ [c] else cP) = num_opened_rounds params
      then (if unat c < num_MPC_parties params then cP @ [c] else cP)
      else chunksP params cs (if unat c < num_MPC_parties params then cP @ [c] else cP))"
  by (simp only: chunksP.simps Let_def)

lemma chunksP_filter:
  "length cP < num_opened_rounds params \<Longrightarrow>
     chunksP params cs cP =
       take (num_opened_rounds params) (cP @ filter (\<lambda>c. unat c < num_MPC_parties params) cs)"
proof (induction cs arbitrary: cP)
  case Nil
  then show ?case by simp
next
  case (Cons c cs)
  show ?case
  proof (cases "unat c < num_MPC_parties params")
    case False
    then have "chunksP params (c # cs) cP = chunksP params cs cP"
      using Cons.prems by (simp add: chunksP_Cons)
    with Cons.IH [OF Cons.prems] False show ?thesis by simp
  next
    case True
    show ?thesis
    proof (cases "Suc (length cP) = num_opened_rounds params")
      case full: True
      have "chunksP params (c # cs) cP = cP @ [c]"
        using True full by (simp add: chunksP_Cons)
      moreover have "take (num_opened_rounds params)
          (cP @ filter (\<lambda>c. unat c < num_MPC_parties params) (c # cs)) = cP @ [c]"
        using True full [symmetric] by simp
      ultimately show ?thesis by simp
    next
      case False
      then have lt: "length (cP @ [c]) < num_opened_rounds params"
        using Cons.prems by simp
      have "chunksP params (c # cs) cP = chunksP params cs (cP @ [c])"
        using True False by (simp add: chunksP_Cons)
      with Cons.IH [OF lt] True show ?thesis by simp
    qed
  qed
qed

lemma chunksP_ok:
  assumes "okP params cP" and "length cP < num_opened_rounds params"
  shows "okP params (chunksP params cs cP)"
proof -
  have "set (take (num_opened_rounds params) (cP @ filter (\<lambda>c. unat c < num_MPC_parties params) cs))
      \<subseteq> set cP \<union> {c. unat c < num_MPC_parties params}"
    using set_take_subset [of "num_opened_rounds params"
        "cP @ filter (\<lambda>c. unat c < num_MPC_parties params) cs"] by auto
  with assms show ?thesis
    unfolding okP_def chunksP_filter [OF assms(2)] by auto
qed

lemma populateP_ok:
  assumes "populateP pr params h cP = Some y" and "okP params cP"
  shows "okP params (fst y) \<and> length (fst y) = num_opened_rounds params"
proof -
  have "okP params cP \<longrightarrow> okP params (fst y) \<and> length (fst y) = num_opened_rounds params"
  proof (rule populateP.raw_induct [where P = "\<lambda>pr params h cP y. okP params cP \<longrightarrow>
            okP params (fst y) \<and> length (fst y) = num_opened_rounds params", OF _ assms(1)], goal_cases)
    case (1 populateP pr params h cP y)
    show ?case
    proof
      assume ok: "okP params cP"
      show "okP params (fst y) \<and> length (fst y) = num_opened_rounds params"
      proof (cases "length cP < num_opened_rounds params")
        case True
        with 1(2) have "populateP pr params (rehash pr params h)
          (chunksP params
             (bitsToChunks pr (ceil_log2 pr (num_MPC_parties params)) h (digest_size params)) cP) = Some y"
          by (simp only: if_True)
        from 1(1) [OF this] chunksP_ok [OF ok True] show ?thesis by blast
      next
        case False
        with 1(2) have "y = (cP, h)" by (simp only: if_False option.inject)
        with False ok show ?thesis unfolding okP_def by simp
      qed
    qed
  qed
  with assms(2) show ?thesis by blast
qed

lemma expandChallenge_Some:
  assumes "expandChallenge pr params sigH = Some (cC, cP)"
  obtains h h' where "populateC pr params (take (digest_size params) sigH) [] = Some (cC, h)"
    and "populateP pr params h [] = Some (cP, h')"
  using assms unfolding expandChallenge_def
  by (auto split: option.splits prod.splits)


lemma test_expandChallenge:
  "expandChallenge test_prims test_params [0x21, 0x43] = Some ([1, 2], [10, 15])"
  by (simp add: expandChallenge_def populateC.simps populateP.simps
      rehash_def hash_squeeze_def hash_final_def hash_update_def hash_init_prefix_def
      HASH_PREFIX_1_def test_xof_def
      bitsToChunks_def chunk_of_def test_prims_simps test_params_simps test_getBit_def upt_rec
      appendUnique_def contains_def Let_def)




lemma foldl_chunk_sum:
  "foldl (\<lambda>c j. c + push_bit j (of_bool (g j))) (0::u16) [0..<k] =
     of_nat (\<Sum>j<k. of_bool (g j) * 2 ^ j)"
  by (induction k) (simp_all add: push_bit_eq_mult)

lemma bit_sum_less: "(\<Sum>j<k. of_bool (g j) * 2 ^ j) < (2::nat) ^ k"
proof (induction k)
  case 0
  then show ?case by simp
next
  case (Suc k)
  have "of_bool (g k) * 2 ^ k \<le> (2::nat) ^ k" by simp
  with Suc show ?case by simp
qed

lemma unat_chunk_of:
  "unat (chunk_of pr b inp i) =
     (\<Sum>j<b. of_bool (getBit pr inp (i * b + j)) * 2 ^ j) mod 2 ^ 16"
proof -
  have "unat (chunk_of pr b inp i) =
      (\<Sum>j<b. of_bool (getBit pr inp (i * b + j)) * 2 ^ j) mod 2 ^ LENGTH(16)"
    by (simp only: chunk_of_def foldl_chunk_sum unat_of_nat)
  then show ?thesis by (simp only: len_bit0 len_num1 mult_1_right numeral_times_numeral
      semiring_norm)
qed

lemma unat_chunk_of_small:
  assumes "b \<le> 16"
  shows "unat (chunk_of pr b inp i) = (\<Sum>j<b. of_bool (getBit pr inp (i * b + j)) * 2 ^ j)"
proof -
  have "(\<Sum>j<b. of_bool (getBit pr inp (i * b + j)) * 2 ^ j) < (2::nat) ^ b"
    by (rule bit_sum_less)
  also have "(2::nat) ^ b \<le> 2 ^ 16"
    using assms by (rule power_increasing) simp
  finally show ?thesis by (simp only: unat_chunk_of mod_less)
qed

lemma length_bitsToChunks:
  "0 < b \<Longrightarrow> b \<le> len * 8 \<Longrightarrow> length (bitsToChunks pr b inp len) = (len * 8) div b"
  by (simp add: bitsToChunks_def)

lemma nth_bitsToChunks:
  "0 < b \<Longrightarrow> b \<le> len * 8 \<Longrightarrow> i < (len * 8) div b \<Longrightarrow>
     bitsToChunks pr b inp len ! i = chunk_of pr b inp i"
  by (simp add: bitsToChunks_def)

lemma rehash_eq:
  "rehash pr params h =
     map (xof pr (digest_size params) (Some HASH_PREFIX_1) (take (digest_size params) h))
       [0..<digest_size params]"
  by (simp add: rehash_def hash_squeeze_def hash_final_def hash_update_def hash_init_prefix_def)

lemma populateC_last:
  assumes "populateC pr params h cC = Some y"
  shows "(length cC < num_opened_rounds params \<longrightarrow>
           (\<exists>hp c0. length c0 < num_opened_rounds params \<and>
              fst y = chunksC params
                 (bitsToChunks pr (ceil_log2 pr (num_rounds params)) hp (digest_size params)) c0 \<and>
              snd y = rehash pr params hp)) \<and>
         (\<not> length cC < num_opened_rounds params \<longrightarrow> y = (cC, h))"
proof (rule populateC.raw_induct [where P = "\<lambda>pr params h cC y.
         (length cC < num_opened_rounds params \<longrightarrow>
           (\<exists>hp c0. length c0 < num_opened_rounds params \<and>
              fst y = chunksC params
                 (bitsToChunks pr (ceil_log2 pr (num_rounds params)) hp (digest_size params)) c0 \<and>
              snd y = rehash pr params hp)) \<and>
         (\<not> length cC < num_opened_rounds params \<longrightarrow> y = (cC, h))", OF _ assms], goal_cases)
  case (1 populateC pr params h cC y)
  let ?c1 = "chunksC params
               (bitsToChunks pr (ceil_log2 pr (num_rounds params)) h (digest_size params)) cC"
  show ?case
  proof (cases "length cC < num_opened_rounds params")
    case False
    with 1(2) have "y = (cC, h)" by (simp only: if_False option.inject)
    with False show ?thesis by simp
  next
    case True
    with 1(2) have rec: "populateC pr params (rehash pr params h) ?c1 = Some y"
      by (simp only: if_True)
    note IH = 1(1) [OF rec]
    show ?thesis
    proof (cases "length ?c1 < num_opened_rounds params")
      case True
      with IH show ?thesis using \<open>length cC < num_opened_rounds params\<close> by blast
    next
      case False
      with IH have "y = (?c1, rehash pr params h)" by blast
      then have "fst y = ?c1 \<and> snd y = rehash pr params h" by simp
      with \<open>length cC < num_opened_rounds params\<close> show ?thesis by blast
    qed
  qed
qed


lemma passC_eq:
  "passC pr params (c, h) =
     (chunksC params (bitsToChunks pr (ceil_log2 pr (num_rounds params)) h (digest_size params)) c,
      rehash pr params h)"
  by (simp add: passC_def rehash_eq HASH_PREFIX_1_def)

lemma populateC_trace:
  assumes "populateC pr params h cC = Some y"
  shows "\<exists>k. y = (passC pr params ^^ k) (cC, h) \<and>
           (\<forall>j<k. length (fst ((passC pr params ^^ j) (cC, h))) < num_opened_rounds params) \<and>
           \<not> length (fst y) < num_opened_rounds params"
proof (rule populateC.raw_induct [where P = "\<lambda>pr params h cC y.
         \<exists>k. y = (passC pr params ^^ k) (cC, h) \<and>
           (\<forall>j<k. length (fst ((passC pr params ^^ j) (cC, h))) < num_opened_rounds params) \<and>
           \<not> length (fst y) < num_opened_rounds params", OF _ assms], goal_cases)
  case (1 populateC pr params h cC y)
  let ?c1 = "chunksC params
               (bitsToChunks pr (ceil_log2 pr (num_rounds params)) h (digest_size params)) cC"
  show ?case
  proof (cases "length cC < num_opened_rounds params")
    case False
    with 1(2) have "y = (cC, h)" by (simp only: if_False option.inject)
    with False show ?thesis by (intro exI [of _ 0]) simp
  next
    case True
    with 1(2) have rec: "populateC pr params (rehash pr params h) ?c1 = Some y"
      by (simp only: if_True)
    from 1(1) [OF rec] obtain k where
      y: "y = (passC pr params ^^ k) (?c1, rehash pr params h)"
      and lt: "\<forall>j<k. length (fst ((passC pr params ^^ j) (?c1, rehash pr params h)))
                 < num_opened_rounds params"
      and full: "\<not> length (fst y) < num_opened_rounds params"
      by blast
    have sh: "\<And>j. (passC pr params ^^ j) (?c1, rehash pr params h) =
                  (passC pr params ^^ Suc j) (cC, h)"
      by (simp only: funpow_Suc_right o_apply passC_eq)
    have "\<forall>j<Suc k. length (fst ((passC pr params ^^ j) (cC, h))) < num_opened_rounds params"
    proof (intro allI impI)
      fix j assume j: "j < Suc k"
      show "length (fst ((passC pr params ^^ j) (cC, h))) < num_opened_rounds params"
      proof (cases j)
        case 0
        with True show ?thesis by simp
      next
        case (Suc i)
        with j lt have "length (fst ((passC pr params ^^ i) (?c1, rehash pr params h)))
                 < num_opened_rounds params" by simp
        then show ?thesis unfolding sh Suc .
      qed
    qed
    with y full show ?thesis unfolding sh by blast
  qed
qed

lemma snd_passC_funpow:
  "snd ((passC pr params ^^ k) (c, h)) = (rehash pr params ^^ k) h"
proof (induction k)
  case 0
  then show ?case by simp
next
  case (Suc k)
  obtain c' h' where s: "(passC pr params ^^ k) (c, h) = (c', h')"
    by (cases "(passC pr params ^^ k) (c, h)") auto
  with Suc show ?case by (simp add: passC_eq)
qed


lemma test_passC:
  "passC test_prims test_params ([], [0x11, 0x11]) = ([1], [0xB0, 0xB7])"
  "passC test_prims test_params ([1], [0xB0, 0xB7]) = ([1, 0], [0x09, 0x10])"
  by (simp_all add: passC_def test_xof_def
      bitsToChunks_def chunk_of_def test_prims_simps test_params_simps test_getBit_def upt_rec
      appendUnique_def contains_def Let_def)

lemma populateC_pass:
  "length cC < num_opened_rounds params \<Longrightarrow>
   populateC pr params h cC =
     populateC pr params (snd (passC pr params (cC, h))) (fst (passC pr params (cC, h)))"
  by (subst populateC.simps) (simp add: passC_eq)

lemma populateC_full:
  "\<not> length cC < num_opened_rounds params \<Longrightarrow> populateC pr params h cC = Some (cC, h)"
  by (subst populateC.simps) simp

lemma test_populateC_two_passes:
  "populateC test_prims test_params [0x11, 0x11] [] = Some ([1, 0], [0x09, 0x10])"
  apply (subst populateC_pass)
   apply (simp add: test_params_simps)
  apply (simp only: test_passC fst_conv snd_conv)
  apply (subst populateC_pass)
   apply (simp add: test_params_simps)
  apply (simp only: test_passC fst_conv snd_conv)
  apply (subst populateC_full)
   apply (simp add: test_params_simps)
  apply (rule refl)
  done

lemma test_populateP_one_pass:
  "populateP test_prims test_params [0x09, 0x10] [] = Some ([9, 0], [0x83, 0x8A])"
  apply (subst populateP.simps)
  apply (simp add: test_params_simps test_prims_simps bitsToChunks_def chunk_of_def
      test_getBit_def upt_rec rehash_eq test_xof_def HASH_PREFIX_1_def)
  apply (subst populateP.simps)
  apply (simp add: test_params_simps)
  done

lemma test_expandChallenge_two_passes:
  "expandChallenge test_prims test_params [0x11, 0x11] = Some ([1, 0], [9, 0])"
  by (simp add: expandChallenge_def test_params_simps test_populateC_two_passes
      test_populateP_one_pass)

text \<open>
  C6. The first phase runs in passes. A pass takes the list and the buffer \<open>h\<close>, appends to
  the list from the chunks of \<open>h\<close>, and replaces \<open>h\<close> by the first \<^verbatim>\<open>digest_size\<close> bytes
  squeezed from the hash initialised with prefix \<open>0x01\<close> after absorbing \<open>h\<close>
  (\<open>passC\<close>). When \<^verbatim>\<open>expandChallenge\<close> returns, \<open>challengeC\<close> and the buffer that the second
  phase starts from are the list and the buffer after exactly \<open>k\<close> whole passes from the
  empty list and the digest, \<open>k\<close> being the first number of passes after which the list is
  full: every pass, the one that fills the list included, has replaced the buffer, which
  is the digest rehashed \<open>k\<close> times, and \<open>k\<close> is not 0 when a round is to be opened. A
  buffer yields \<open>digest_size * 8 div bC\<close> chunks, and chunk \<open>i\<close> has bit \<open>j\<close> of its value
  equal to bit \<open>i * bC + j\<close> of the buffer (for chunk widths that fit the 16-bit chunk
  type).
\<close>

theorem expandChallenge_passes:
  assumes "expandChallenge pr params sigH = Some (cC, cP)"
  shows "(\<exists>k h'.
           (\<forall>j<k. length (fst ((passC pr params ^^ j) ([], take (digest_size params) sigH)))
                     < num_opened_rounds params) \<and>
           (passC pr params ^^ k) ([], take (digest_size params) sigH) =
             (cC, (rehash pr params ^^ k) (take (digest_size params) sigH)) \<and>
           length cC = num_opened_rounds params \<and>
           populateP pr params ((rehash pr params ^^ k) (take (digest_size params) sigH)) []
             = Some (cP, h') \<and>
           (0 < num_opened_rounds params \<longrightarrow> 0 < k)) \<and>
         (\<forall>h. rehash pr params h =
              map (xof pr (digest_size params) (Some 1) (take (digest_size params) h))
                [0..<digest_size params]) \<and>
         (0 < ceil_log2 pr (num_rounds params) \<and> ceil_log2 pr (num_rounds params) \<le> 16 \<and>
          ceil_log2 pr (num_rounds params) \<le> digest_size params * 8 \<longrightarrow>
          (\<forall>h. length (bitsToChunks pr (ceil_log2 pr (num_rounds params)) h (digest_size params)) =
                 (digest_size params * 8) div ceil_log2 pr (num_rounds params) \<and>
               (\<forall>i < (digest_size params * 8) div ceil_log2 pr (num_rounds params).
                  unat (bitsToChunks pr (ceil_log2 pr (num_rounds params)) h (digest_size params) ! i) =
                    (\<Sum>j < ceil_log2 pr (num_rounds params).
                       of_bool (getBit pr h (i * ceil_log2 pr (num_rounds params) + j)) * 2 ^ j))))"
proof (intro conjI allI impI)
  from assms obtain h h' where
    c: "populateC pr params (take (digest_size params) sigH) [] = Some (cC, h)" and
    p: "populateP pr params h [] = Some (cP, h')"
    by (rule expandChallenge_Some)
  from populateC_trace [OF c] obtain k where
    y: "(cC, h) = (passC pr params ^^ k) ([], take (digest_size params) sigH)"
    and lt: "\<forall>j<k. length (fst ((passC pr params ^^ j) ([], take (digest_size params) sigH)))
                < num_opened_rounds params"
    by (elim exE conjE) (rule that)
  have "okC params []" by (simp add: okC_def)
  from populateC_ok [OF c this] have len: "length cC = num_opened_rounds params" by simp
  have "h = snd (cC, h)" by simp
  also have "\<dots> = (rehash pr params ^^ k) (take (digest_size params) sigH)"
    unfolding y by (rule snd_passC_funpow)
  finally have h: "h = (rehash pr params ^^ k) (take (digest_size params) sigH)" .
  have k: "0 < num_opened_rounds params \<longrightarrow> 0 < k"
  proof (intro impI, rule ccontr)
    assume t: "0 < num_opened_rounds params" and "\<not> 0 < k"
    then have "k = 0" by simp
    with y have "cC = []" by simp
    with len t show False by simp
  qed
  have y': "(passC pr params ^^ k) ([], take (digest_size params) sigH) =
             (cC, (rehash pr params ^^ k) (take (digest_size params) sigH))"
    using y [symmetric] h by simp
  have p': "populateP pr params ((rehash pr params ^^ k) (take (digest_size params) sigH)) []
             = Some (cP, h')"
    using p h by simp
  show "\<exists>k h'.
           (\<forall>j<k. length (fst ((passC pr params ^^ j) ([], take (digest_size params) sigH)))
                     < num_opened_rounds params) \<and>
           (passC pr params ^^ k) ([], take (digest_size params) sigH) =
             (cC, (rehash pr params ^^ k) (take (digest_size params) sigH)) \<and>
           length cC = num_opened_rounds params \<and>
           populateP pr params ((rehash pr params ^^ k) (take (digest_size params) sigH)) []
             = Some (cP, h') \<and>
           (0 < num_opened_rounds params \<longrightarrow> 0 < k)"
    by (rule exI [where x = k], rule exI [where x = h'])
       (rule conjI [OF lt conjI [OF y' conjI [OF len conjI [OF p' k]]]])
next
  fix h
  show "rehash pr params h =
              map (xof pr (digest_size params) (Some 1) (take (digest_size params) h))
                [0..<digest_size params]"
    by (simp only: rehash_eq HASH_PREFIX_1_def)
next
  fix h
  assume a: "0 < ceil_log2 pr (num_rounds params) \<and> ceil_log2 pr (num_rounds params) \<le> 16 \<and>
          ceil_log2 pr (num_rounds params) \<le> digest_size params * 8"
  then show "length (bitsToChunks pr (ceil_log2 pr (num_rounds params)) h (digest_size params)) =
                 (digest_size params * 8) div ceil_log2 pr (num_rounds params)"
    by (simp only: length_bitsToChunks)
  fix i assume i: "i < (digest_size params * 8) div ceil_log2 pr (num_rounds params)"
  from a have a': "0 < ceil_log2 pr (num_rounds params)" "ceil_log2 pr (num_rounds params) \<le> 16"
    "ceil_log2 pr (num_rounds params) \<le> digest_size params * 8" by simp_all
  show "unat (bitsToChunks pr (ceil_log2 pr (num_rounds params)) h (digest_size params) ! i) =
                (\<Sum>j < ceil_log2 pr (num_rounds params).
                   of_bool (getBit pr h (i * ceil_log2 pr (num_rounds params) + j)) * 2 ^ j)"
    by (simp only: nth_bitsToChunks [OF a'(1,3) i] unat_chunk_of_small [OF a'(2)])
qed

theorem expandChallenge_passes_witness:
  "expandChallenge test_prims test_params [0x11, 0x11] = Some ([1, 0], [9, 0]) \<and>
   (passC test_prims test_params ^^ 1) ([], [0x11, 0x11]) = ([1], [0xB0, 0xB7]) \<and>
   length [1 :: u16] < num_opened_rounds test_params \<and>
   (passC test_prims test_params ^^ 2) ([], [0x11, 0x11]) =
     ([1, 0], (rehash test_prims test_params ^^ 2) [0x11, 0x11]) \<and>
   (rehash test_prims test_params ^^ 2) [0x11, 0x11] = [0x09, 0x10] \<and>
   populateP test_prims test_params ((rehash test_prims test_params ^^ 2) [0x11, 0x11]) []
     = Some ([9, 0], [0x83, 0x8A]) \<and>
   rehash test_prims test_params [0x11, 0x11] = [0xB0, 0xB7] \<and>
   length (bitsToChunks test_prims 4 [0x11, 0x11] 2) = 4"
proof -
  note t = expandChallenge_passes [OF test_expandChallenge_two_passes]
  have d: "take (digest_size test_params) [0x11, 0x11 :: byte] = [0x11, 0x11]"
    by (simp add: test_params_simps)
  have p1: "(passC test_prims test_params ^^ 1) ([], [0x11, 0x11]) = ([1], [0xB0, 0xB7])"
    by (simp add: test_passC)
  have p2: "(passC test_prims test_params ^^ 2) ([], [0x11, 0x11]) = ([1, 0], [0x09, 0x10])"
    by (simp add: test_passC numeral_2_eq_2)
  from t [THEN conjunct1, unfolded d] obtain k h' where
    lt: "\<forall>j<k. length (fst ((passC test_prims test_params ^^ j) ([], [0x11, 0x11])))
                < num_opened_rounds test_params" and
    y: "(passC test_prims test_params ^^ k) ([], [0x11, 0x11]) =
          ([1, 0], (rehash test_prims test_params ^^ k) [0x11, 0x11])" and
    p: "populateP test_prims test_params ((rehash test_prims test_params ^^ k) [0x11, 0x11]) []
          = Some ([9, 0], h')" and
    k: "0 < num_opened_rounds test_params \<longrightarrow> 0 < k"
    by (elim exE conjE) (rule that)
  have "\<not> 2 < k"
  proof
    assume "2 < k"
    with lt have "length (fst ((passC test_prims test_params ^^ 2) ([], [0x11, 0x11])))
                < num_opened_rounds test_params" by blast
    then show False by (simp only: p2 fst_conv test_params_simps) simp
  qed
  moreover from k have "k \<noteq> 0" by (simp add: test_params_simps)
  moreover have "k \<noteq> 1"
  proof
    assume "k = 1"
    with y p1 show False by simp
  qed
  ultimately have k2: "k = 2" by arith
  from y have y2: "(passC test_prims test_params ^^ 2) ([], [0x11, 0x11]) =
     ([1, 0], (rehash test_prims test_params ^^ 2) [0x11, 0x11])"
    by (simp only: k2)
  from y2 p2 have r2: "(rehash test_prims test_params ^^ 2) [0x11, 0x11] = [0x09, 0x10]"
    by simp
  from p have "populateP test_prims test_params
      ((rehash test_prims test_params ^^ 2) [0x11, 0x11]) [] = Some ([9, 0], h')"
    by (simp only: k2)
  then have pp: "populateP test_prims test_params
      ((rehash test_prims test_params ^^ 2) [0x11, 0x11]) [] = Some ([9, 0], [0x83, 0x8A])"
    by (simp only: r2 test_populateP_one_pass)
  have l1: "length [1 :: u16] < num_opened_rounds test_params"
    by (simp add: test_params_simps)
  from t [THEN conjunct2, THEN conjunct1]
  have r: "rehash test_prims test_params [0x11, 0x11] = [0xB0, 0xB7]"
    by (simp add: test_params_simps test_prims_simps test_xof_def upt_rec)
  from t [THEN conjunct2, THEN conjunct2]
  have l: "length (bitsToChunks test_prims 4 [0x11, 0x11] 2) = 4"
    by (simp add: test_params_simps test_prims_simps)
  show ?thesis
    by (rule conjI [OF test_expandChallenge_two_passes
          conjI [OF p1 conjI [OF l1 conjI [OF y2 conjI [OF r2 conjI [OF pp conjI [OF r l]]]]]]])
qed

section \<open>Properties of serialization\<close>

lemma sum_bind_simps [simp]:
  "sum_bind (Inl e) f = Inl e" "sum_bind (Inr v) f = f v"
  by (simp_all add: sum_bind_def)

lemma not_last_party_pos:
  "0 < num_MPC_parties params \<Longrightarrow>
   not_last_party params P = (unat P \<noteq> num_MPC_parties params - 1)"
  by (simp add: not_last_party_def)

lemma contains_parties:
  assumes "num_opened_rounds params = 0 \<or> 0 < num_MPC_parties params"
    and "contains cC (num_opened_rounds params) v"
  shows "0 < num_MPC_parties params"
  using assms by (auto simp: contains_def)

lemma expandChallenge_parties:
  assumes "expandChallenge pr params sigH = Some (cC, cP)"
  shows "num_opened_rounds params = 0 \<or> 0 < num_MPC_parties params"
proof (cases "num_opened_rounds params = 0")
  case True
  then show ?thesis by simp
next
  case False
  from assms obtain h h' where p: "populateP pr params h [] = Some (cP, h')"
    by (rule expandChallenge_Some)
  have "okP params []" by (simp add: okP_def)
  from populateP_ok [OF p this] have ok: "okP params cP"
    and len: "length cP = num_opened_rounds params" by simp_all
  from len False have "cP \<noteq> []" by auto
  then have "hd cP \<in> set cP" by simp
  with ok have "unat (hd cP) < num_MPC_parties params" unfolding okP_def by blast
  then show ?thesis by simp
qed

lemma sum_bind_eq_Inr:
  "sum_bind x f = Inr y \<longleftrightarrow> (\<exists>v. x = Inr v \<and> f v = Inr y)"
  by (cases x) simp_all

lemma memcpy_from_eq_Inr:
  "memcpy_from src n = Inr (a, b) \<longleftrightarrow> n \<le> length src \<and> a = take n src \<and> b = drop n src"
  by (auto simp: memcpy_from_def)

lemma memcpy_from_append:
  "length a = n \<Longrightarrow> memcpy_from (a @ b) n = Inr (a, b)"
  by (simp add: memcpy_from_def)

lemma memcpy_from_exact:
  "length a = n \<Longrightarrow> memcpy_from a n = Inr (a, [])"
  by (simp add: memcpy_from_def)

lemma size_add_mod: "size_add a b mod Suc SIZE_MAX = (a + b) mod Suc SIZE_MAX"
  by (simp add: size_add_def)

lemma size_add_mod_left: "size_add (a mod Suc SIZE_MAX) b = (a + b) mod Suc SIZE_MAX"
  by (simp add: size_add_def mod_add_left_eq)

lemma size_add_cong: "a mod Suc SIZE_MAX = a' mod Suc SIZE_MAX \<Longrightarrow> size_add a b = size_add a' b"
  unfolding size_add_def by (metis mod_add_left_eq)

lemma size_add_assoc': "size_add (size_add a b) c = size_add a (b + c)"
  by (simp add: size_add_def mod_add_left_eq add.assoc)

lemma bytesRequired_step_eq:
  assumes "num_opened_rounds params = 0 \<or> 0 < num_MPC_parties params"
  shows "bytesRequired_step params cC cP sil b t =
     (if contains cC (num_opened_rounds params) (of_nat t)
      then size_add b (proof_len params cC cP sil t) else b)"
proof (cases "contains cC (num_opened_rounds params) (of_nat t)")
  case True
  from contains_parties [OF assms True] True show ?thesis
    by (simp add: bytesRequired_step_def proof_len_def Let_def size_add_assoc' add_ac
        not_last_party_pos)
next
  case False
  then show ?thesis by (simp add: bytesRequired_step_def)
qed

lemma bytesRequired_step_mod:
  assumes "num_opened_rounds params = 0 \<or> 0 < num_MPC_parties params"
  shows "bytesRequired_step params cC cP sil b t mod Suc SIZE_MAX =
     (b + proof_len params cC cP sil t) mod Suc SIZE_MAX"
  by (simp add: bytesRequired_step_eq [OF assms] size_add_mod) (simp add: proof_len_def)

lemma foldl_bytesRequired_step:
  assumes np: "num_opened_rounds params = 0 \<or> 0 < num_MPC_parties params"
  shows "foldl (bytesRequired_step params cC cP sil) b ts mod Suc SIZE_MAX =
     (b + proofs_len params cC cP sil ts) mod Suc SIZE_MAX"
proof (induction ts arbitrary: b)
  case Nil
  then show ?case by (simp add: proofs_len_def)
next
  case (Cons t ts)
  have "foldl (bytesRequired_step params cC cP sil) b (t # ts) mod Suc SIZE_MAX =
        (bytesRequired_step params cC cP sil b t + proofs_len params cC cP sil ts) mod Suc SIZE_MAX"
    using Cons.IH [of "bytesRequired_step params cC cP sil b t"] by simp
  also have "\<dots> = (bytesRequired_step params cC cP sil b t mod Suc SIZE_MAX + proofs_len params cC cP sil ts) mod Suc SIZE_MAX"
    by (simp add: mod_add_left_eq)
  also have "\<dots> = ((b + proof_len params cC cP sil t) mod Suc SIZE_MAX + proofs_len params cC cP sil ts) mod Suc SIZE_MAX"
    by (simp only: bytesRequired_step_mod [OF np])
  also have "\<dots> = (b + proofs_len params cC cP sil (t # ts)) mod Suc SIZE_MAX"
    by (simp add: mod_add_left_eq proofs_len_def add.assoc)
  finally show ?case .
qed

lemma size_add_le: "size_add a b \<le> SIZE_MAX"
  unfolding size_add_def using mod_less_divisor [of "Suc SIZE_MAX" "a + b"] by simp

lemma bytesRequired_step_le:
  "b \<le> SIZE_MAX \<Longrightarrow> bytesRequired_step params cC cP sil b t \<le> SIZE_MAX"
  by (simp add: bytesRequired_step_def Let_def size_add_le)

lemma foldl_bytesRequired_step_le:
  "b \<le> SIZE_MAX \<Longrightarrow> foldl (bytesRequired_step params cC cP sil) b ts \<le> SIZE_MAX"
proof (induction ts arbitrary: b)
  case Nil
  then show ?case by simp
next
  case (Cons t ts)
  from Cons.IH [OF bytesRequired_step_le [OF Cons.prems]] show ?case by simp
qed

lemma memcpy_from_Inr_D:
  assumes "memcpy_from src n = Inr (a, b)"
  shows "src = a @ b" "length a = n"
  using assms by (auto simp: memcpy_from_eq_Inr)

lemma read_aux_Inr:
  assumes "(if not_last_party params P_t then
          sum_bind (memcpy_from sb1 (view_size params)) (\<lambda>(a, sb2).
          sum_bind (arePaddingBitsZero pr a (view_size params)
                      (3 * lowmc_r (lowmc params) * lowmc_m (lowmc params))) (\<lambda>ok.
          if \<not> ok then Inl (Returns (- 1)) else Inr (a, sb2)))
        else Inr (aux (allocateProof2 pr params), sb1)) = Inr (a, sb2)"
  shows "\<exists>w. sb1 = w @ sb2 \<and>
     (if not_last_party params P_t
      then w = a \<and> length a = view_size params \<and>
           arePaddingBitsZero pr a (view_size params)
             (3 * lowmc_r (lowmc params) * lowmc_m (lowmc params)) = Inr True
      else w = [] \<and> a = aux (allocateProof2 pr params))"
proof (cases "not_last_party params P_t")
  case False
  with assms show ?thesis by simp
next
  case True
  with assms obtain a' sb' where m: "memcpy_from sb1 (view_size params) = Inr (a', sb')"
    and r: "sum_bind (arePaddingBitsZero pr a' (view_size params)
                      (3 * lowmc_r (lowmc params) * lowmc_m (lowmc params))) (\<lambda>ok.
          if \<not> ok then Inl (Returns (- 1)) else Inr (a', sb')) = Inr (a, sb2)"
    by (auto simp: sum_bind_eq_Inr)
  from r obtain ok where p: "arePaddingBitsZero pr a' (view_size params)
                      (3 * lowmc_r (lowmc params) * lowmc_m (lowmc params)) = Inr ok"
    and r': "(if \<not> ok then Inl (Returns (- 1)) else Inr (a', sb')) = Inr (a, sb2)"
    by (auto simp: sum_bind_eq_Inr)
  from r' have "ok" "a' = a" "sb' = sb2" by (auto split: if_splits)
  with m p True memcpy_from_Inr_D [OF m] show ?thesis by auto
qed

lemma memcpy_from_InrD:
  "memcpy_from src n = Inr (a, b) \<Longrightarrow> src = a @ b \<and> length a = n"
  by (auto simp: memcpy_from_eq_Inr)

lemma sum_bindE:
  assumes "sum_bind x f = Inr y"
  obtains v where "x = Inr v" "f v = Inr y"
  using assms by (auto simp: sum_bind_eq_Inr)

lemma sum_bind_pairE:
  assumes "sum_bind x (\<lambda>(a, b). f a b) = Inr y"
  obtains a b where "x = Inr (a, b)" "f a b = Inr y"
  using assms by (auto simp: sum_bind_eq_Inr)

lemma if_not_InlE:
  assumes "(if \<not> ok then Inl e else x) = Inr y"
  obtains "ok" "x = Inr y"
  using assms by (auto split: if_splits)

lemma read_proof_Inr:
  assumes "read_proof pr params sil P_t sb = Inr (prf, sb')"
  shows "\<exists>si w inp ms c.
      sb = si @ w @ inp @ ms @ c @ sb' \<and> length si = sil \<and>
      length inp = input_output_size params \<and> length ms = view_size params \<and>
      length c = digest_size params \<and>
      (if not_last_party params P_t
       then w = aux prf \<and> length w = view_size params \<and>
           arePaddingBitsZero pr w (view_size params)
             (3 * lowmc_r (lowmc params) * lowmc_m (lowmc params)) = Inr True
       else w = [] \<and> aux prf = aux (allocateProof2 pr params)) \<and>
      arePaddingBitsZero pr inp (input_output_size params) (lowmc_n (lowmc params)) = Inr True \<and>
      arePaddingBitsZero pr ms (view_size params)
             (3 * lowmc_r (lowmc params) * lowmc_m (lowmc params)) = Inr True \<and>
      prf = (allocateProof2 pr params)
              \<lparr>seedInfo := si, aux := aux prf, C := c, input := inp, msgs := ms\<rparr>"
  using assms unfolding read_proof_def
  apply (elim sum_bind_pairE sum_bindE if_not_InlE)
  apply (drule read_aux_Inr)
  apply (drule memcpy_from_InrD)+
  apply (elim exE conjE)
  subgoal for si sb1 a sb2 inp sb3 ok ms sb4 ok' c sb5 w
    apply (rule exI [of _ si], rule exI [of _ w], rule exI [of _ inp],
        rule exI [of _ ms], rule exI [of _ c])
    apply (auto split: if_splits)
    done
  done

lemma length_proof_bytes:
  assumes "decoded_proof pr params sil P_t prf"
  shows "length (proof_bytes params P_t prf) =
     sil + (if unat P_t \<noteq> num_MPC_parties params - 1 then view_size params else 0)
       + input_output_size params + view_size params + digest_size params"
  using assms by (simp add: decoded_proof_def proof_bytes_def split: if_splits)

lemma read_proof_decoded:
  assumes "read_proof pr params sil P_t sb = Inr (prf, sb')"
    and N: "0 < num_MPC_parties params"
  shows "decoded_proof pr params sil P_t prf \<and> sb = proof_bytes params P_t prf @ sb'"
proof -
  from read_proof_Inr [OF assms(1), unfolded not_last_party_pos [OF N]]
  obtain si w inp ms c where
    sb: "sb = si @ w @ inp @ ms @ c @ sb'" and len: "length si = sil"
      "length inp = input_output_size params" "length ms = view_size params"
      "length c = digest_size params" and
    w: "(if unat P_t \<noteq> num_MPC_parties params - 1
       then w = aux prf \<and> length w = view_size params \<and>
           arePaddingBitsZero pr w (view_size params)
             (3 * lowmc_r (lowmc params) * lowmc_m (lowmc params)) = Inr True
       else w = [] \<and> aux prf = aux (allocateProof2 pr params))" and
    pad: "arePaddingBitsZero pr inp (input_output_size params) (lowmc_n (lowmc params)) = Inr True"
      "arePaddingBitsZero pr ms (view_size params)
             (3 * lowmc_r (lowmc params) * lowmc_m (lowmc params)) = Inr True" and
    prf_eq: "prf = (allocateProof2 pr params)
              \<lparr>seedInfo := si, aux := aux prf, C := c, input := inp, msgs := ms\<rparr>"
    by blast
  have f: "seedInfo prf = si" "input prf = inp" "msgs prf = ms" "C prf = c"
    "unOpenedIndex prf = unOpenedIndex (allocateProof2 pr params)"
    by (subst prf_eq, simp)+
  from f len pad w have "decoded_proof pr params sil P_t prf"
    by (auto simp: decoded_proof_def split: if_splits)
  moreover from f w sb have "sb = proof_bytes params P_t prf @ sb'"
    by (auto simp: proof_bytes_def split: if_splits)
  ultimately show ?thesis ..
qed

lemma decoded_proof_eq:
  assumes "decoded_proof pr params sil P_t prf"
  shows "(allocateProof2 pr params)
            \<lparr>seedInfo := seedInfo prf, aux := aux prf, C := C prf, input := input prf,
              msgs := msgs prf\<rparr> = prf"
  using assms by (simp add: decoded_proof_def)

lemma read_proof_proof_bytes:
  assumes "decoded_proof pr params sil P_t prf" and N: "0 < num_MPC_parties params"
  shows "read_proof pr params sil P_t (proof_bytes params P_t prf @ rest) = Inr (prf, rest)"
proof (cases "unat P_t \<noteq> num_MPC_parties params - 1")
  case True
  with assms(1) show ?thesis
    unfolding read_proof_def proof_bytes_def not_last_party_pos [OF N]
    by (simp add: decoded_proof_def memcpy_from_append)
next
  case False
  with assms(1) show ?thesis
    unfolding read_proof_def proof_bytes_def not_last_party_pos [OF N]
    by (simp add: decoded_proof_def memcpy_from_append)
qed

lemma proofs_bytes_simps [simp]:
  "proofs_bytes params cC cP [] = []"
  "proofs_bytes params cC cP (tp # tps) =
     entry_bytes params cC cP tp @ proofs_bytes params cC cP tps"
  by (simp_all add: proofs_bytes_def)

lemma proofs_len_simps [simp]:
  "proofs_len params cC cP sil [] = 0"
  "proofs_len params cC cP sil (t # ts) =
     proof_len params cC cP sil t + proofs_len params cC cP sil ts"
  by (simp_all add: proofs_len_def)

lemma read_proofs_decoded:
  assumes np: "num_opened_rounds params = 0 \<or> 0 < num_MPC_parties params"
  shows "read_proofs pr params cC cP sil sb ts = Inr (ps, sb') \<Longrightarrow>
     list_all2 (decoded_entry pr params cC cP sil) ts ps \<and>
     sb = proofs_bytes params cC cP (zip ts ps) @ sb'"
proof (induction ts arbitrary: sb ps)
  case Nil
  then show ?case by simp
next
  case (Cons t ts)
  show ?case
  proof (cases "contains cC (num_opened_rounds params) (of_nat t)")
    case True
    with Cons.prems obtain q sb1 ps1 where
      r: "read_proof pr params sil (P_t_of params cC cP t) sb = Inr (q, sb1)" and
      rs: "read_proofs pr params cC cP sil sb1 ts = Inr (ps1, sb')" and
      ps: "ps = Some q # ps1"
      by (auto simp: sum_bind_eq_Inr)
    from read_proof_decoded [OF r contains_parties [OF np True]] Cons.IH [OF rs] True ps
    show ?thesis
      by (simp add: decoded_entry_def entry_bytes_def)
  next
    case False
    with Cons.prems obtain ps1 where
      rs: "read_proofs pr params cC cP sil sb ts = Inr (ps1, sb')" and
      ps: "ps = None # ps1"
      by (auto simp: sum_bind_eq_Inr)
    from Cons.IH [OF rs] False ps show ?thesis
      by (simp add: decoded_entry_def entry_bytes_def)
  qed
qed

lemma length_proofs_bytes:
  "list_all2 (decoded_entry pr params cC cP sil) ts ps \<Longrightarrow>
     length (proofs_bytes params cC cP (zip ts ps)) = proofs_len params cC cP sil ts"
proof (induction ts ps rule: list_all2_induct)
  case Nil
  then show ?case by simp
next
  case (Cons t p ts ps)
  then show ?case
    by (auto simp: decoded_entry_def entry_bytes_def proof_len_def length_proof_bytes
        split: if_splits)
qed

lemma read_proofs_proofs_bytes:
  assumes np: "num_opened_rounds params = 0 \<or> 0 < num_MPC_parties params"
  shows "list_all2 (decoded_entry pr params cC cP sil) ts ps \<Longrightarrow>
     read_proofs pr params cC cP sil (proofs_bytes params cC cP (zip ts ps) @ rest) ts
       = Inr (ps, rest)"
proof (induction ts ps rule: list_all2_induct)
  case Nil
  then show ?case by simp
next
  case (Cons t p ts ps)
  show ?case
  proof (cases "contains cC (num_opened_rounds params) (of_nat t)")
    case True
    note N = contains_parties [OF np True]
    from Cons True show ?thesis
      by (auto simp: decoded_entry_def entry_bytes_def read_proof_proof_bytes [OF _ N])
  next
    case False
    with Cons show ?thesis
      by (auto simp: decoded_entry_def entry_bytes_def)
  qed
qed

text \<open>What the decoder computes from the challenge alone.\<close>

lemma bytesRequired_of_eq:
  assumes np: "num_opened_rounds params = 0 \<or> 0 < num_MPC_parties params"
  shows "bytesRequired_of pr params cC cP = plain_len pr params cC cP mod Suc SIZE_MAX"
proof -
  let ?b = "size_add (size_add (digest_size params + SALT_SIZE) (iSeedInfoLen_of pr params cC))
          (cvInfoLen_of pr params cC)"
  have "bytesRequired_of pr params cC cP \<le> SIZE_MAX"
    unfolding bytesRequired_of_def by (rule foldl_bytesRequired_step_le) (rule size_add_le)
  then have "bytesRequired_of pr params cC cP = bytesRequired_of pr params cC cP mod Suc SIZE_MAX"
    by simp
  also have "\<dots> = (?b + proofs_len params cC cP (seedInfoLen_of pr params) [0..<num_rounds params])
      mod Suc SIZE_MAX"
    unfolding bytesRequired_of_def by (rule foldl_bytesRequired_step [OF np])
  also have "\<dots> = plain_len pr params cC cP mod Suc SIZE_MAX"
    unfolding plain_len_def size_add_def by (simp only: mod_add_left_eq)
  finally show ?thesis .
qed

lemma deserialize_expanded_Inr:
  assumes "deserialize_expanded pr params n chal slt cC cP sb = Inr sg"
    and np: "num_opened_rounds params = 0 \<or> 0 < num_MPC_parties params"
  shows "iSeedInfoLen_of pr params cC \<noteq> SIZE_MAX \<and> cvInfoLen_of pr params cC \<noteq> SIZE_MAX \<and>
     seedInfoLen_of pr params \<noteq> SIZE_MAX \<and> n = bytesRequired_of pr params cC cP \<and>
     salt sg = slt \<and> challenge sg = chal \<and> challengeC sg = cC \<and> challengeP sg = cP \<and>
     length (iSeedInfo sg) = iSeedInfoLen_of pr params cC \<and>
     length (cvInfo sg) = cvInfoLen_of pr params cC \<and>
     list_all2 (decoded_entry pr params cC cP (seedInfoLen_of pr params))
       [0..<num_rounds params] (proofs sg) \<and>
     (\<exists>rest. sb = iSeedInfo sg @ cvInfo sg
        @ proofs_bytes params cC cP (zip [0..<num_rounds params] (proofs sg)) @ rest)"
proof -
  note defs = iSeedInfoLen_of_def cvInfoLen_of_def seedInfoLen_of_def bytesRequired_of_def
  from assms(1) have a: "iSeedInfoLen_of pr params cC \<noteq> SIZE_MAX"
    "cvInfoLen_of pr params cC \<noteq> SIZE_MAX" "seedInfoLen_of pr params \<noteq> SIZE_MAX"
    "n = bytesRequired_of pr params cC cP"
    unfolding deserialize_expanded_def defs Let_def by (auto split: if_splits)
  with assms(1) have "sum_bind (memcpy_from sb (iSeedInfoLen_of pr params cC)) (\<lambda>(isi, sb1).
      sum_bind (memcpy_from sb1 (cvInfoLen_of pr params cC)) (\<lambda>(cvi, sb2).
      sum_bind (read_proofs pr params cC cP (seedInfoLen_of pr params) sb2 [0..<num_rounds params])
        (\<lambda>(ps, sb3).
      Inr \<lparr>salt = slt, iSeedInfo = isi, cvInfo = cvi, challenge = chal,
           challengeC = cC, challengeP = cP, proofs = ps\<rparr>))) = Inr sg"
    unfolding deserialize_expanded_def defs Let_def by (simp split: if_splits)
  then obtain isi sb1 cvi sb2 ps sb3 where
    m1: "memcpy_from sb (iSeedInfoLen_of pr params cC) = Inr (isi, sb1)" and
    m2: "memcpy_from sb1 (cvInfoLen_of pr params cC) = Inr (cvi, sb2)" and
    rp: "read_proofs pr params cC cP (seedInfoLen_of pr params) sb2 [0..<num_rounds params]
           = Inr (ps, sb3)" and
    sg: "Inr \<lparr>salt = slt, iSeedInfo = isi, cvInfo = cvi, challenge = chal,
           challengeC = cC, challengeP = cP, proofs = ps\<rparr> = (Inr sg :: outcome + signature2_t)"
    by (elim sum_bind_pairE)
  from sg have sg': "sg = \<lparr>salt = slt, iSeedInfo = isi, cvInfo = cvi, challenge = chal,
           challengeC = cC, challengeP = cP, proofs = ps\<rparr>" by simp
  from memcpy_from_InrD [OF m1] memcpy_from_InrD [OF m2] read_proofs_decoded [OF np rp] a
  show ?thesis by (simp add: sg')
qed

lemma deserializeSignature2_Inr:
  assumes "deserializeSignature2 pr params bs = Some (Inr sg)"
  shows "expandChallenge pr params (take (digest_size params) bs)
           = Some (challengeC sg, challengeP sg) \<and>
     iSeedInfoLen_of pr params (challengeC sg) \<noteq> SIZE_MAX \<and>
     cvInfoLen_of pr params (challengeC sg) \<noteq> SIZE_MAX \<and>
     seedInfoLen_of pr params \<noteq> SIZE_MAX \<and>
     length bs = bytesRequired_of pr params (challengeC sg) (challengeP sg) \<and>
     length bs = plain_len pr params (challengeC sg) (challengeP sg) \<and>
     length (challenge sg) = digest_size params \<and> length (salt sg) = SALT_SIZE \<and>
     length (iSeedInfo sg) = iSeedInfoLen_of pr params (challengeC sg) \<and>
     length (cvInfo sg) = cvInfoLen_of pr params (challengeC sg) \<and>
     list_all2 (decoded_entry pr params (challengeC sg) (challengeP sg) (seedInfoLen_of pr params))
       [0..<num_rounds params] (proofs sg) \<and>
     bs = challenge sg @ salt sg @ iSeedInfo sg @ cvInfo sg
        @ proofs_bytes params (challengeC sg) (challengeP sg)
            (zip [0..<num_rounds params] (proofs sg))"
proof -
  let ?D = "digest_size params"
  from assms have len: "?D + SALT_SIZE \<le> length bs"
    unfolding deserializeSignature2_def by (auto split: if_splits)
  with assms obtain cC cP where
    ex: "expandChallenge pr params (take ?D bs) = Some (cC, cP)" and
    de: "deserialize_expanded pr params (length bs) (take ?D bs) (take SALT_SIZE (drop ?D bs))
           cC cP (drop SALT_SIZE (drop ?D bs)) = Inr sg"
    unfolding deserializeSignature2_def Let_def by (auto split: option.splits)
  note np = expandChallenge_parties [OF ex]
  note d = deserialize_expanded_Inr [OF de np]
  from d obtain rest where rest: "drop SALT_SIZE (drop ?D bs) = iSeedInfo sg @ cvInfo sg
        @ proofs_bytes params cC cP (zip [0..<num_rounds params] (proofs sg)) @ rest"
    by blast
  from d have f: "challenge sg = take ?D bs" "salt sg = take SALT_SIZE (drop ?D bs)"
    "challengeC sg = cC" "challengeP sg = cP" by simp_all
  have "take SALT_SIZE (drop ?D bs) @ drop SALT_SIZE (drop ?D bs) = drop ?D bs"
    by (rule append_take_drop_id)
  moreover have "take ?D bs @ drop ?D bs = bs"
    by (rule append_take_drop_id)
  ultimately have bs: "bs = challenge sg @ salt sg @ drop SALT_SIZE (drop ?D bs)"
    unfolding f by (simp only:)
  have l1: "length (challenge sg) = ?D" "length (salt sg) = SALT_SIZE"
    using len unfolding f by simp_all
  from d have dec: "list_all2 (decoded_entry pr params cC cP (seedInfoLen_of pr params))
       [0..<num_rounds params] (proofs sg)" by blast
  have "length bs = length (challenge sg) + length (salt sg) + length (iSeedInfo sg)
      + length (cvInfo sg)
      + length (proofs_bytes params cC cP (zip [0..<num_rounds params] (proofs sg))) + length rest"
    by (subst bs, subst rest) simp
  then have total: "length bs = plain_len pr params cC cP + length rest"
    using d l1 by (simp add: plain_len_def length_proofs_bytes [OF dec])
  from d have "length bs = bytesRequired_of pr params cC cP" by blast
  then have m: "length bs = plain_len pr params cC cP mod Suc SIZE_MAX"
    by (simp only: bytesRequired_of_eq [OF np])
  have "plain_len pr params cC cP mod Suc SIZE_MAX \<le> plain_len pr params cC cP"
    by (rule mod_less_eq_dividend)
  with total m have r0: "rest = []" and pl: "length bs = plain_len pr params cC cP"
    by simp_all
  from bs rest r0 have "bs = challenge sg @ salt sg @ iSeedInfo sg @ cvInfo sg
        @ proofs_bytes params cC cP (zip [0..<num_rounds params] (proofs sg))"
    by simp
  with d ex l1 dec pl show ?thesis unfolding f(3,4) by simp
qed

lemma deserialize_expanded_alt:
  "deserialize_expanded pr params n chal slt cC cP sb =
     (if iSeedInfoLen_of pr params cC = SIZE_MAX then Inl (Returns EXIT_FAILURE)
      else if cvInfoLen_of pr params cC = SIZE_MAX then Inl (Returns EXIT_FAILURE)
      else if seedInfoLen_of pr params = SIZE_MAX then Inl (Returns EXIT_FAILURE)
      else if n \<noteq> bytesRequired_of pr params cC cP then Inl (Returns EXIT_FAILURE)
      else
      sum_bind (memcpy_from sb (iSeedInfoLen_of pr params cC)) (\<lambda>(isi, sb1).
      sum_bind (memcpy_from sb1 (cvInfoLen_of pr params cC)) (\<lambda>(cvi, sb2).
      sum_bind (read_proofs pr params cC cP (seedInfoLen_of pr params) sb2 [0..<num_rounds params])
        (\<lambda>(ps, sb3).
      Inr \<lparr>salt = slt, iSeedInfo = isi, cvInfo = cvi, challenge = chal,
           challengeC = cC, challengeP = cP, proofs = ps\<rparr>))))"
  by (simp add: deserialize_expanded_def iSeedInfoLen_of_def cvInfoLen_of_def seedInfoLen_of_def
      bytesRequired_of_def Let_def)

lemma deserializeSignature2_bytes:
  assumes ex: "expandChallenge pr params chal = Some (cC, cP)"
    and ch: "length chal = digest_size params"
    and sl: "length slt = SALT_SIZE"
    and isi: "length isi = iSeedInfoLen_of pr params cC" "iSeedInfoLen_of pr params cC \<noteq> SIZE_MAX"
    and cvi: "length cvi = cvInfoLen_of pr params cC" "cvInfoLen_of pr params cC \<noteq> SIZE_MAX"
    and sil: "seedInfoLen_of pr params \<noteq> SIZE_MAX"
    and dec: "list_all2 (decoded_entry pr params cC cP (seedInfoLen_of pr params))
       [0..<num_rounds params] ps"
    and fit: "plain_len pr params cC cP \<le> SIZE_MAX"
  shows "deserializeSignature2 pr params
           (chal @ slt @ isi @ cvi @ proofs_bytes params cC cP (zip [0..<num_rounds params] ps)) =
         Some (Inr \<lparr>salt = slt, iSeedInfo = isi, cvInfo = cvi, challenge = chal,
           challengeC = cC, challengeP = cP, proofs = ps\<rparr>)"
proof -
  let ?pb = "proofs_bytes params cC cP (zip [0..<num_rounds params] ps)"
  let ?bs = "chal @ slt @ isi @ cvi @ ?pb"
  have lo: "length ?bs = plain_len pr params cC cP"
    by (simp add: plain_len_def length_proofs_bytes [OF dec] ch sl isi cvi)
  note np = expandChallenge_parties [OF ex]
  have br: "bytesRequired_of pr params cC cP = plain_len pr params cC cP"
    using fit by (simp add: bytesRequired_of_eq [OF np])
  have rp: "read_proofs pr params cC cP (seedInfoLen_of pr params) ?pb [0..<num_rounds params]
      = Inr (ps, [])"
    using read_proofs_proofs_bytes [OF np dec, of "[]"] by simp
  have de: "deserialize_expanded pr params (length ?bs) chal slt cC cP (isi @ cvi @ ?pb) =
      Inr \<lparr>salt = slt, iSeedInfo = isi, cvInfo = cvi, challenge = chal,
           challengeC = cC, challengeP = cP, proofs = ps\<rparr>"
    unfolding deserialize_expanded_alt
    using isi cvi sil lo br rp
    by (simp add: memcpy_from_append)
  have "\<not> length ?bs < digest_size params + SALT_SIZE"
    using ch sl by simp
  moreover have "take (digest_size params) ?bs = chal" using ch by simp
  moreover have "drop (digest_size params) ?bs = slt @ isi @ cvi @ ?pb" using ch by simp
  moreover have "take SALT_SIZE (slt @ isi @ cvi @ ?pb) = slt" using sl by simp
  moreover have "drop SALT_SIZE (slt @ isi @ cvi @ ?pb) = isi @ cvi @ ?pb" using sl by simp
  ultimately show ?thesis
    unfolding deserializeSignature2_def Let_def
    by (simp only: if_False ex option.case prod.case de)
qed

lemma memcpy_from_Inl: "memcpy_from src n = Inl e \<Longrightarrow> e = Undefined_behaviour"
  by (auto simp: memcpy_from_def split: if_splits)

lemma arePaddingBitsZero_Inl: "arePaddingBitsZero pr d bl n = Inl e \<Longrightarrow> e = Undefined_behaviour"
  by (auto simp: arePaddingBitsZero_def split: if_splits)

lemma sum_bind_Inl:
  assumes "sum_bind x f = Inl e"
    and "\<And>e'. x = Inl e' \<Longrightarrow> Q e'"
    and "\<And>v. x = Inr v \<Longrightarrow> f v = Inl e \<Longrightarrow> Q e"
  shows "Q e"
  using assms by (cases x) auto

lemma padding_failure_simps [simp]:
  "padding_failure Undefined_behaviour" "padding_failure (Returns (- 1))"
  by (simp_all add: padding_failure_def)

lemma check_Inl:
  assumes "sum_bind (arePaddingBitsZero pr d bl n) (\<lambda>ok. if \<not> ok then Inl (Returns (- 1)) else f) = Inl e"
    and "f = Inl e \<Longrightarrow> padding_failure e"
  shows "padding_failure e"
  using assms by (auto simp: sum_bind_def dest: arePaddingBitsZero_Inl split: sum.splits if_splits)

lemma read_proof_Inl:
  assumes "read_proof pr params sil P_t sb = Inl e"
  shows "padding_failure e"
  using assms unfolding read_proof_def
  apply (elim sum_bind_Inl)
   apply (drule memcpy_from_Inl, simp)
  apply (clarsimp split: if_splits)
   apply (elim sum_bind_Inl)
     apply (drule memcpy_from_Inl, simp)
    apply clarsimp
    apply (erule check_Inl, simp)
   apply clarsimp
   apply (elim sum_bind_Inl)
    apply (drule memcpy_from_Inl, simp)
   apply clarsimp
   apply (erule check_Inl)
   apply (elim sum_bind_Inl)
    apply (drule memcpy_from_Inl, simp)
   apply clarsimp
   apply (erule check_Inl)
   apply (elim sum_bind_Inl)
    apply (drule memcpy_from_Inl, simp)
   apply clarsimp
  apply (elim sum_bind_Inl)
   apply (drule memcpy_from_Inl, simp)
  apply clarsimp
  apply (erule check_Inl)
  apply (elim sum_bind_Inl)
   apply (drule memcpy_from_Inl, simp)
  apply clarsimp
  apply (erule check_Inl)
  apply (elim sum_bind_Inl)
   apply (drule memcpy_from_Inl, simp)
  apply clarsimp
  done

lemma read_proofs_Inl:
  "read_proofs pr params cC cP sil sb ts = Inl e \<Longrightarrow> padding_failure e"
proof (induction ts arbitrary: sb)
  case Nil
  then show ?case by simp
next
  case (Cons t ts)
  show ?case
  proof (cases "contains cC (num_opened_rounds params) (of_nat t)")
    case True
    with Cons.prems have "sum_bind (read_proof pr params sil (P_t_of params cC cP t) sb)
          (\<lambda>(q, sb1).
        sum_bind (read_proofs pr params cC cP sil sb1 ts) (\<lambda>(ps, sb').
        Inr (Some q # ps, sb'))) = Inl e" by simp
    then show ?thesis
    proof (rule sum_bind_Inl)
      fix e' assume "read_proof pr params sil (P_t_of params cC cP t) sb = Inl e'"
      then show "padding_failure e'" by (rule read_proof_Inl)
    next
      fix v assume "(case v of (q, sb1) \<Rightarrow>
        sum_bind (read_proofs pr params cC cP sil sb1 ts) (\<lambda>(ps, sb').
        Inr (Some q # ps, sb'))) = Inl e"
      then obtain sb1 where "read_proofs pr params cC cP sil sb1 ts = Inl e"
        by (cases v) (auto simp: sum_bind_def split: sum.splits)
      then show "padding_failure e" by (rule Cons.IH)
    qed
  next
    case False
    with Cons.prems have "read_proofs pr params cC cP sil sb ts = Inl e"
      by (auto simp: sum_bind_def split: sum.splits)
    then show ?thesis by (rule Cons.IH)
  qed
qed

lemma deserialize_expanded_Inl:
  assumes "deserialize_expanded pr params n chal slt cC cP sb = Inl e"
    and "iSeedInfoLen_of pr params cC \<noteq> SIZE_MAX" "cvInfoLen_of pr params cC \<noteq> SIZE_MAX"
      "seedInfoLen_of pr params \<noteq> SIZE_MAX" "n = bytesRequired_of pr params cC cP"
  shows "padding_failure e"
proof -
  from assms have "sum_bind (memcpy_from sb (iSeedInfoLen_of pr params cC)) (\<lambda>(isi, sb1).
      sum_bind (memcpy_from sb1 (cvInfoLen_of pr params cC)) (\<lambda>(cvi, sb2).
      sum_bind (read_proofs pr params cC cP (seedInfoLen_of pr params) sb2 [0..<num_rounds params])
        (\<lambda>(ps, sb3).
      Inr \<lparr>salt = slt, iSeedInfo = isi, cvInfo = cvi, challenge = chal,
           challengeC = cC, challengeP = cP, proofs = ps\<rparr>))) = Inl e"
    by (simp add: deserialize_expanded_alt)
  then show ?thesis
    apply (elim sum_bind_Inl)
     apply (drule memcpy_from_Inl, simp)
    apply clarsimp
    apply (elim sum_bind_Inl)
     apply (drule memcpy_from_Inl, simp)
    apply clarsimp
    apply (elim sum_bind_Inl)
     apply (erule read_proofs_Inl)
    apply clarsimp
    done
qed

lemma deserializeSignature2_expanded:
  assumes "expandChallenge pr params (take (digest_size params) bs) = Some (cC, cP)"
    and "digest_size params + SALT_SIZE \<le> length bs"
  shows "deserializeSignature2 pr params bs =
     Some (deserialize_expanded pr params (length bs) (take (digest_size params) bs)
        (take SALT_SIZE (drop (digest_size params) bs)) cC cP
        (drop SALT_SIZE (drop (digest_size params) bs)))"
  using assms by (simp add: deserializeSignature2_def Let_def)

lemma list_all2_decoded_nth:
  assumes "list_all2 (decoded_entry pr params cC cP sil) [0..<T] ps" and "t < T"
  shows "decoded_entry pr params cC cP sil t (ps ! t)"
  using list_all2_nthD [OF assms(1), of t] assms(2) by simp

text \<open>
  C3. Length exactness of decoding. Let the challenge (the first \<^verbatim>\<open>digest_size\<close> bytes)
  expand to \<open>(cC, cP)\<close>. The decoder returns \<^verbatim>\<open>EXIT_FAILURE\<close> when the input is shorter
  than challenge and salt, when one of the three size functions reports \<^verbatim>\<open>SIZE_MAX\<close>,
  and when the input's length differs from the length it computed, which is a function of
  \<open>(cC, cP)\<close> and the parameters alone: the sum of challenge, salt, the two openings and
  the proofs of the opened rounds, as a \<^verbatim>\<open>size_t\<close>. On acceptance \<open>challengeC\<close>,
  \<open>challengeP\<close> and the two lengths of the result are the recomputed ones, and the input
  has exactly the plain sum as its length.
\<close>

theorem deserializeSignature2_length_exact:
  assumes "expandChallenge pr params (take (digest_size params) bs) = Some (cC, cP)"
  shows "(length bs < digest_size params + SALT_SIZE \<or>
          iSeedInfoLen_of pr params cC = SIZE_MAX \<or> cvInfoLen_of pr params cC = SIZE_MAX \<or>
          seedInfoLen_of pr params = SIZE_MAX \<or>
          length bs \<noteq> bytesRequired_of pr params cC cP
          \<longrightarrow> deserializeSignature2 pr params bs = Some (Inl (Returns EXIT_FAILURE))) \<and>
         bytesRequired_of pr params cC cP = plain_len pr params cC cP mod Suc SIZE_MAX \<and>
         (\<forall>sg. deserializeSignature2 pr params bs = Some (Inr sg) \<longrightarrow>
            challenge sg = take (digest_size params) bs \<and>
            challengeC sg = cC \<and> challengeP sg = cP \<and>
            length (iSeedInfo sg) = iSeedInfoLen_of pr params cC \<and>
            length (cvInfo sg) = cvInfoLen_of pr params cC \<and>
            length bs = plain_len pr params cC cP)"
proof (intro conjI impI allI)
  assume r: "length bs < digest_size params + SALT_SIZE \<or>
          iSeedInfoLen_of pr params cC = SIZE_MAX \<or> cvInfoLen_of pr params cC = SIZE_MAX \<or>
          seedInfoLen_of pr params = SIZE_MAX \<or>
          length bs \<noteq> bytesRequired_of pr params cC cP"
  show "deserializeSignature2 pr params bs = Some (Inl (Returns EXIT_FAILURE))"
  proof (cases "length bs < digest_size params + SALT_SIZE")
    case True
    then show ?thesis by (simp add: deserializeSignature2_def)
  next
    case False
    with r show ?thesis
      by (auto simp: deserializeSignature2_expanded [OF assms] deserialize_expanded_alt)
  qed
next
  show "bytesRequired_of pr params cC cP = plain_len pr params cC cP mod Suc SIZE_MAX"
    by (rule bytesRequired_of_eq [OF expandChallenge_parties [OF assms]])
next
  fix sg assume a: "deserializeSignature2 pr params bs = Some (Inr sg)"
  note d = deserializeSignature2_Inr [OF a]
  from d have "expandChallenge pr params (take (digest_size params) bs)
           = Some (challengeC sg, challengeP sg)" by blast
  with assms have c: "challengeC sg = cC" "challengeP sg = cP" by simp_all
  from c show "challengeC sg = cC" "challengeP sg = cP" .
  from d show "length (iSeedInfo sg) = iSeedInfoLen_of pr params cC"
    "length (cvInfo sg) = cvInfoLen_of pr params cC"
    "length bs = plain_len pr params cC cP"
    unfolding c by blast+
  from d have "bs = challenge sg @ salt sg @ iSeedInfo sg @ cvInfo sg
        @ proofs_bytes params (challengeC sg) (challengeP sg)
            (zip [0..<num_rounds params] (proofs sg))"
    and "length (challenge sg) = digest_size params" by blast+
  then have "take (digest_size params) bs = challenge sg"
    by (metis append_eq_conv_conj)
  then show "challenge sg = take (digest_size params) bs" by simp
qed

text \<open>
  C4. Padding rejection. For an input that passes the checks before the proof section,
  the decoder either fails in the proof section, which it does with the return value
  \<open>-1\<close> (or by reading outside a buffer of length zero), or it accepts, and then the
  input is the concatenation of the fields of the result, and in every opened round
  \<^verbatim>\<open>arePaddingBitsZero\<close> holds of \<open>input\<close> against \<open>n\<close>, of \<open>msgs\<close> against
  \<open>3 * r * m\<close> and, when the unopened party is not the last one, of \<open>aux\<close> against
  \<open>3 * r * m\<close>. So an input with a field whose padding check fails is never accepted.
\<close>

theorem deserializeSignature2_padding:
  assumes "expandChallenge pr params (take (digest_size params) bs) = Some (cC, cP)"
    and "digest_size params + SALT_SIZE \<le> length bs"
    and "iSeedInfoLen_of pr params cC \<noteq> SIZE_MAX" and "cvInfoLen_of pr params cC \<noteq> SIZE_MAX"
    and "seedInfoLen_of pr params \<noteq> SIZE_MAX"
    and "length bs = bytesRequired_of pr params cC cP"
  shows "(\<exists>e. deserializeSignature2 pr params bs = Some (Inl e) \<and>
              (e = Returns (- 1) \<or> e = Undefined_behaviour)) \<or>
         (\<exists>sg. deserializeSignature2 pr params bs = Some (Inr sg) \<and>
            bs = challenge sg @ salt sg @ iSeedInfo sg @ cvInfo sg
                   @ proofs_bytes params cC cP (zip [0..<num_rounds params] (proofs sg)) \<and>
            (\<forall>t < num_rounds params. contains cC (num_opened_rounds params) (of_nat t) \<longrightarrow>
               (\<exists>p. proofs sg ! t = Some p \<and>
                  arePaddingBitsZero pr (input p) (input_output_size params)
                    (lowmc_n (lowmc params)) = Inr True \<and>
                  arePaddingBitsZero pr (msgs p) (view_size params)
                    (3 * lowmc_r (lowmc params) * lowmc_m (lowmc params)) = Inr True \<and>
                  (unat (P_t_of params cC cP t) \<noteq> num_MPC_parties params - 1 \<longrightarrow>
                     arePaddingBitsZero pr (aux p) (view_size params)
                       (3 * lowmc_r (lowmc params) * lowmc_m (lowmc params)) = Inr True))))"
proof (cases "deserialize_expanded pr params (length bs) (take (digest_size params) bs)
        (take SALT_SIZE (drop (digest_size params) bs)) cC cP
        (drop SALT_SIZE (drop (digest_size params) bs))")
  case (Inl e)
  from deserialize_expanded_Inl [OF Inl assms(3,4,5,6)] Inl show ?thesis
    by (simp add: deserializeSignature2_expanded [OF assms(1,2)] padding_failure_def)
next
  case (Inr sg)
  then have a: "deserializeSignature2 pr params bs = Some (Inr sg)"
    by (simp add: deserializeSignature2_expanded [OF assms(1,2)])
  note d = deserializeSignature2_Inr [OF a]
  from d have "expandChallenge pr params (take (digest_size params) bs)
           = Some (challengeC sg, challengeP sg)" by blast
  with assms(1) have c: "challengeC sg = cC" "challengeP sg = cP" by simp_all
  from d have dec: "list_all2 (decoded_entry pr params cC cP (seedInfoLen_of pr params))
       [0..<num_rounds params] (proofs sg)" unfolding c by blast
  have "\<forall>t < num_rounds params. contains cC (num_opened_rounds params) (of_nat t) \<longrightarrow>
               (\<exists>p. proofs sg ! t = Some p \<and>
                  arePaddingBitsZero pr (input p) (input_output_size params)
                    (lowmc_n (lowmc params)) = Inr True \<and>
                  arePaddingBitsZero pr (msgs p) (view_size params)
                    (3 * lowmc_r (lowmc params) * lowmc_m (lowmc params)) = Inr True \<and>
                  (unat (P_t_of params cC cP t) \<noteq> num_MPC_parties params - 1 \<longrightarrow>
                     arePaddingBitsZero pr (aux p) (view_size params)
                       (3 * lowmc_r (lowmc params) * lowmc_m (lowmc params)) = Inr True))"
  proof (intro allI impI)
    fix t assume "t < num_rounds params" "contains cC (num_opened_rounds params) (of_nat t)"
    with list_all2_decoded_nth [OF dec] show "\<exists>p. proofs sg ! t = Some p \<and>
                  arePaddingBitsZero pr (input p) (input_output_size params)
                    (lowmc_n (lowmc params)) = Inr True \<and>
                  arePaddingBitsZero pr (msgs p) (view_size params)
                    (3 * lowmc_r (lowmc params) * lowmc_m (lowmc params)) = Inr True \<and>
                  (unat (P_t_of params cC cP t) \<noteq> num_MPC_parties params - 1 \<longrightarrow>
                     arePaddingBitsZero pr (aux p) (view_size params)
                       (3 * lowmc_r (lowmc params) * lowmc_m (lowmc params)) = Inr True)"
      by (fastforce simp: decoded_entry_def decoded_proof_def)
  qed
  moreover from d have "bs = challenge sg @ salt sg @ iSeedInfo sg @ cvInfo sg
                   @ proofs_bytes params cC cP (zip [0..<num_rounds params] (proofs sg))"
    unfolding c by blast
  ultimately show ?thesis using a by blast
qed

lemma decoded_proof_wf:
  "decoded_proof pr params sil P_t q \<Longrightarrow> wf_proof pr params sil P_t q"
  by (auto simp: decoded_proof_def wf_proof_def split: if_splits)

lemma decoded_entry_wf:
  "decoded_entry pr params cC cP sil t p \<Longrightarrow> wf_entry pr params cC cP sil t p"
  by (auto simp: decoded_entry_def wf_entry_def decoded_proof_wf split: if_splits)

lemma wf_proof_decoder_view:
  "wf_proof pr params sil P_t q \<Longrightarrow> decoded_proof pr params sil P_t (decoder_view pr params P_t q)"
  by (auto simp: decoded_proof_def wf_proof_def decoder_view_def)

lemma proof_bytes_decoder_view:
  "proof_bytes params P_t (decoder_view pr params P_t q) = proof_bytes params P_t q"
  by (simp add: proof_bytes_def decoder_view_def)

lemma write_proof_wf:
  assumes "wf_proof pr params sil P_t q" and N: "0 < num_MPC_parties params"
  shows "write_proof params P_t (Some q) = Inr (proof_bytes params P_t q)"
  using assms(1)
  by (auto simp: wf_proof_def write_proof_def proof_bytes_def memcpy_from_exact
      not_last_party_pos [OF N])

lemma length_proof_bytes_wf:
  assumes "wf_proof pr params sil P_t q"
  shows "length (proof_bytes params P_t q) =
     sil + (if unat P_t \<noteq> num_MPC_parties params - 1 then view_size params else 0)
       + input_output_size params + view_size params + digest_size params"
  using assms by (auto simp: wf_proof_def proof_bytes_def)

lemma write_proofs_wf:
  assumes np: "num_opened_rounds params = 0 \<or> 0 < num_MPC_parties params"
  shows "list_all2 (wf_entry pr params cC cP sil) ts ps \<Longrightarrow>
     write_proofs params cC cP (zip ts ps) = Inr (proofs_bytes params cC cP (zip ts ps))"
proof (induction ts ps rule: list_all2_induct)
  case Nil
  then show ?case by simp
next
  case (Cons t p ts ps)
  show ?case
  proof (cases "contains cC (num_opened_rounds params) (of_nat t)")
    case True
    note N = contains_parties [OF np True]
    from Cons True show ?thesis
      by (auto simp: wf_entry_def entry_bytes_def write_proof_wf [OF _ N] split: option.splits)
  next
    case False
    with Cons show ?thesis
      by (auto simp: wf_entry_def entry_bytes_def)
  qed
qed

lemma length_proofs_bytes_wf:
  "list_all2 (wf_entry pr params cC cP sil) ts ps \<Longrightarrow>
     length (proofs_bytes params cC cP (zip ts ps)) = proofs_len params cC cP sil ts"
proof (induction ts ps rule: list_all2_induct)
  case Nil
  then show ?case by simp
next
  case (Cons t p ts ps)
  then show ?case
    by (auto simp: wf_entry_def entry_bytes_def proof_len_def length_proof_bytes_wf
        split: if_splits option.splits)
qed

lemma required_step_wf:
  assumes "wf_entry pr params cC cP sil t p"
    and np: "num_opened_rounds params = 0 \<or> 0 < num_MPC_parties params"
  shows "required_step params cC cP b (t, p) =
     (if contains cC (num_opened_rounds params) (of_nat t)
      then size_add b (proof_len params cC cP sil t) else b)"
proof (cases "contains cC (num_opened_rounds params) (of_nat t)")
  case True
  note N = contains_parties [OF np True]
  from assms(1) True show ?thesis
    by (auto simp: required_step_def wf_entry_def wf_proof_def proof_len_def Let_def
        size_add_assoc' add_ac not_last_party_pos [OF N] split: option.splits)
next
  case False
  then show ?thesis by (simp add: required_step_def)
qed

lemma foldl_required_step_wf:
  assumes np: "num_opened_rounds params = 0 \<or> 0 < num_MPC_parties params"
  shows "list_all2 (wf_entry pr params cC cP sil) ts ps \<Longrightarrow>
     foldl (required_step params cC cP) b (zip ts ps) =
     foldl (bytesRequired_step params cC cP sil) b ts"
proof (induction ts ps arbitrary: b rule: list_all2_induct)
  case Nil
  then show ?case by simp
next
  case (Cons t p ts ps)
  then show ?case
    by (simp add: required_step_wf [OF _ np] bytesRequired_step_eq [OF np])
qed

lemma decoder_view_entries:
  "list_all2 (wf_entry pr params cC cP sil) ts ps \<Longrightarrow>
     list_all2 (decoded_entry pr params cC cP sil) ts
       (map (decoder_view_entry pr params cC cP) (zip ts ps)) \<and>
     proofs_bytes params cC cP (zip ts (map (decoder_view_entry pr params cC cP) (zip ts ps))) =
       proofs_bytes params cC cP (zip ts ps)"
proof (induction ts ps rule: list_all2_induct)
  case Nil
  then show ?case by simp
next
  case (Cons t p ts ps)
  then show ?case
    by (auto simp: wf_entry_def decoded_entry_def entry_bytes_def decoder_view_entry_def
        wf_proof_decoder_view proof_bytes_decoder_view split: if_splits option.splits)
qed

lemma serializeSignature2_wf:
  assumes wf: "wf_signature pr params sg"
    and n: "plain_len pr params (challengeC sg) (challengeP sg) \<le> n"
    and T: "num_rounds params \<le> 65535"
  shows "serializeSignature2 sg n params =
     Some (Inr (int_of_size (plain_len pr params (challengeC sg) (challengeP sg)),
                sig_bytes params sg))"
proof -
  from wf have dec: "list_all2 (wf_entry pr params (challengeC sg) (challengeP sg) (seedInfoLen_of pr params))
       [0..<num_rounds params] (proofs sg)"
    and isi: "length (iSeedInfo sg) = iSeedInfoLen_of pr params (challengeC sg)"
    and cvi: "length (cvInfo sg) = cvInfoLen_of pr params (challengeC sg)"
    and ch: "length (challenge sg) = digest_size params"
    and sl: "length (salt sg) = SALT_SIZE"
    and fit: "plain_len pr params (challengeC sg) (challengeP sg) \<le> SIZE_MAX"
    and ex: "expandChallenge pr params (challenge sg) = Some (challengeC sg, challengeP sg)"
    unfolding wf_signature_def by blast+
  note np = expandChallenge_parties [OF ex]
  have "required_signature_size sg params =
           bytesRequired_of pr params (challengeC sg) (challengeP sg)"
    unfolding required_signature_size_def bytesRequired_of_def
    by (simp only: foldl_required_step_wf [OF np dec] isi cvi)
  then have req: "required_signature_size sg params = plain_len pr params (challengeC sg) (challengeP sg)"
    using fit by (simp add: bytesRequired_of_eq [OF np])
  have lp: "length (proofs sg) = num_rounds params"
    using list_all2_lengthD [OF dec] by simp
  have lo: "length (sig_bytes params sg) = plain_len pr params (challengeC sg) (challengeP sg)"
    by (simp add: sig_bytes_def plain_len_def length_proofs_bytes_wf [OF dec] ch sl isi cvi)
  show ?thesis
    unfolding serializeSignature2_def Let_def req
    using T n lp lo
    by (simp add: memcpy_from_exact [OF ch] memcpy_from_exact [OF sl]
        write_proofs_wf [OF np dec] sig_bytes_def)
qed

lemma deserialize_sig_bytes:
  assumes wf: "wf_signature pr params sg"
  shows "deserializeSignature2 pr params (sig_bytes params sg) =
           Some (Inr (decoder_view_sig pr params sg))"
proof -
  from wf have dec: "list_all2 (wf_entry pr params (challengeC sg) (challengeP sg) (seedInfoLen_of pr params))
       [0..<num_rounds params] (proofs sg)"
    and isi: "length (iSeedInfo sg) = iSeedInfoLen_of pr params (challengeC sg)"
      "iSeedInfoLen_of pr params (challengeC sg) \<noteq> SIZE_MAX"
    and cvi: "length (cvInfo sg) = cvInfoLen_of pr params (challengeC sg)"
      "cvInfoLen_of pr params (challengeC sg) \<noteq> SIZE_MAX"
    and sil: "seedInfoLen_of pr params \<noteq> SIZE_MAX"
    and ch: "length (challenge sg) = digest_size params"
    and sl: "length (salt sg) = SALT_SIZE"
    and ex: "expandChallenge pr params (challenge sg) = Some (challengeC sg, challengeP sg)"
    and fit: "plain_len pr params (challengeC sg) (challengeP sg) \<le> SIZE_MAX"
    unfolding wf_signature_def by blast+
  let ?ps = "map (decoder_view_entry pr params (challengeC sg) (challengeP sg))
                    (zip [0..<num_rounds params] (proofs sg))"
  from decoder_view_entries [OF dec] have
    d: "list_all2 (decoded_entry pr params (challengeC sg) (challengeP sg) (seedInfoLen_of pr params))
          [0..<num_rounds params] ?ps" and
    b: "proofs_bytes params (challengeC sg) (challengeP sg) (zip [0..<num_rounds params] ?ps) =
        proofs_bytes params (challengeC sg) (challengeP sg)
          (zip [0..<num_rounds params] (proofs sg))"
    by blast+
  have "decoder_view_sig pr params sg =
      \<lparr>salt = salt sg, iSeedInfo = iSeedInfo sg, cvInfo = cvInfo sg, challenge = challenge sg,
           challengeC = challengeC sg, challengeP = challengeP sg, proofs = ?ps\<rparr>"
    by (simp add: decoder_view_sig_def)
  with deserializeSignature2_bytes [OF ex ch sl isi cvi sil d fit] show ?thesis
    unfolding sig_bytes_def b by simp
qed

lemma serialize_decoded:
  assumes a: "deserializeSignature2 pr params bs = Some (Inr sg)"
    and n: "length bs \<le> n" and T: "num_rounds params \<le> 65535"
  shows "serializeSignature2 sg n params = Some (Inr (int_of_size (length bs), bs))"
proof -
  note d = deserializeSignature2_Inr [OF a]
  from d have dec: "list_all2 (decoded_entry pr params (challengeC sg) (challengeP sg) (seedInfoLen_of pr params))
       [0..<num_rounds params] (proofs sg)" by blast
  then have wfe: "list_all2 (wf_entry pr params (challengeC sg) (challengeP sg) (seedInfoLen_of pr params))
       [0..<num_rounds params] (proofs sg)"
    by (rule list_all2_mono) (rule decoded_entry_wf)
  from d have pl: "length bs = plain_len pr params (challengeC sg) (challengeP sg)" by blast
  from d have br: "length bs = bytesRequired_of pr params (challengeC sg) (challengeP sg)" by blast
  have "bytesRequired_of pr params (challengeC sg) (challengeP sg) \<le> SIZE_MAX"
    unfolding bytesRequired_of_def by (rule foldl_bytesRequired_step_le) (rule size_add_le)
  with pl br have fit: "plain_len pr params (challengeC sg) (challengeP sg) \<le> SIZE_MAX" by simp
  from d have ch: "length (challenge sg) = digest_size params" 
    and sl: "length (salt sg) = SALT_SIZE" by blast+
  from d have len: "length (iSeedInfo sg) = iSeedInfoLen_of pr params (challengeC sg)"
     "length (cvInfo sg) = cvInfoLen_of pr params (challengeC sg)"
     "iSeedInfoLen_of pr params (challengeC sg) \<noteq> SIZE_MAX"
     "cvInfoLen_of pr params (challengeC sg) \<noteq> SIZE_MAX"
     "seedInfoLen_of pr params \<noteq> SIZE_MAX" by blast+
  from d have ex: "expandChallenge pr params (take (digest_size params) bs)
           = Some (challengeC sg, challengeP sg)" by blast
  from d have bs: "bs = challenge sg @ salt sg @ iSeedInfo sg @ cvInfo sg
        @ proofs_bytes params (challengeC sg) (challengeP sg)
            (zip [0..<num_rounds params] (proofs sg))" by blast
  then have bs': "bs = sig_bytes params sg" by (simp only: sig_bytes_def)
  from bs ch have "take (digest_size params) bs = challenge sg"
    by (metis append_eq_conv_conj)
  with ex have ex': "expandChallenge pr params (challenge sg) = Some (challengeC sg, challengeP sg)"
    by simp
  have wf: "wf_signature pr params sg"
    unfolding wf_signature_def using ch sl ex' len wfe fit by blast
  from serializeSignature2_wf [OF wf _ T, of n] n pl show ?thesis
    by (simp add: bs' [symmetric])
qed

lemma test_sig_simps:
  "salt test_sig = replicate 32 0xAA" "iSeedInfo test_sig = replicate 14 1"
  "cvInfo test_sig = replicate 28 2" "challenge test_sig = [0x21, 0x43]"
  "challengeC test_sig = [1, 2]" "challengeP test_sig = [10, 15]"
  "proofs test_sig = [None, Some test_proof1, Some test_proof2, None, None, None, None, None, None, None, None, None, None, None, None, None]"
  by (simp_all add: test_sig_def)

lemma test_sizes:
  "iSeedInfoLen_of test_prims test_params [1, 2] = 14"
  "cvInfoLen_of test_prims test_params [1, 2] = 28"
  "seedInfoLen_of test_prims test_params = 15"
  by (simp_all add: iSeedInfoLen_of_def cvInfoLen_of_def seedInfoLen_of_def test_prims_def
      test_params_simps size_sub_def SIZE_MAX_def)

lemma test_P_t:
  "P_t_of test_params [1, 2] [10, 15] 1 = 10" "P_t_of test_params [1, 2] [10, 15] 2 = 15"
  "P_t_of test_params [1, 2] [10, 15] (Suc 0) = 10"
  by (simp_all add: P_t_of_def indexOf_def test_params_simps)

lemma test_contains:
  "contains [1, 2] (num_opened_rounds test_params) (of_nat t) \<longleftrightarrow>
     (of_nat t :: u16) = 1 \<or> (of_nat t :: u16) = 2"
  by (auto simp: contains_def test_params_simps)

lemma test_wf_proof1: "wf_proof test_prims test_params 15 10 test_proof1"
  by (simp add: wf_proof_def test_proof1_def test_params_simps arePaddingBitsZero_def
      test_prims_simps test_check_padding_bits_def size_sub_def SIZE_MAX_def)

lemma test_wf_proof2: "wf_proof test_prims test_params 15 15 test_proof2"
  by (simp add: wf_proof_def test_proof2_def test_params_simps arePaddingBitsZero_def
      test_prims_simps test_check_padding_bits_def size_sub_def SIZE_MAX_def)

lemma test_rounds:
  "[0..<num_rounds test_params] = [0, 1, 2, 3, 4, 5, 6, 7, 8, 9, 10, 11, 12, 13, 14, 15]"
  by (simp add: test_params_simps upt_rec)

lemma test_wf_entries:
  "list_all2 (wf_entry test_prims test_params [1, 2] [10, 15] 15) [0..<num_rounds test_params]
     (proofs test_sig)"
  unfolding test_rounds test_sig_simps
  by (simp add: wf_entry_def test_P_t test_wf_proof1 test_wf_proof2 contains_def
      test_params_simps)

lemma test_plain_len: "plain_len test_prims test_params [1, 2] [10, 15] = 115"
  unfolding plain_len_def test_rounds test_sizes
  by (simp add: proof_len_def test_P_t contains_def test_params_simps SALT_SIZE_def)

lemma test_wf_signature: "wf_signature test_prims test_params test_sig"
  unfolding wf_signature_def test_sig_simps test_sizes test_plain_len
  using test_wf_entries test_expandChallenge
  by (simp add: test_params_simps SALT_SIZE_def SIZE_MAX_def test_sig_simps)

lemma test_sig_bytes_prefix:
  "take (digest_size test_params) (sig_bytes test_params test_sig) = [0x21, 0x43]"
  "take (digest_size test_params) (butlast (sig_bytes test_params test_sig)) = [0x21, 0x43]"
  by (simp_all add: sig_bytes_def test_sig_simps test_params_simps butlast_append)

lemma test_sig_bytes_length: "length (sig_bytes test_params test_sig) = 115"
proof -
  have "length (proofs_bytes test_params [1, 2] [10, 15]
          (zip [0..<num_rounds test_params] (proofs test_sig))) =
        proofs_len test_params [1, 2] [10, 15] 15 [0..<num_rounds test_params]"
    by (rule length_proofs_bytes_wf [OF test_wf_entries])
  then have "length (sig_bytes test_params test_sig) =
      plain_len test_prims test_params [1, 2] [10, 15]"
    unfolding sig_bytes_def plain_len_def test_sizes
    by (simp add: test_sig_simps test_params_simps SALT_SIZE_def)
  then show ?thesis by (simp only: test_plain_len)
qed

lemma test_bytesRequired: "bytesRequired_of test_prims test_params [1, 2] [10, 15] = 115"
proof -
  have "num_opened_rounds test_params = 0 \<or> 0 < num_MPC_parties test_params"
    by (simp add: test_params_simps)
  from bytesRequired_of_eq [OF this, of test_prims "[1, 2]" "[10, 15]"] show ?thesis
    by (simp add: test_plain_len SIZE_MAX_def)
qed

lemma test_deserialize:
  "deserializeSignature2 test_prims test_params (sig_bytes test_params test_sig) =
     Some (Inr (decoder_view_sig test_prims test_params test_sig))"
  by (rule deserialize_sig_bytes [OF test_wf_signature])

lemma test_decoder_view_sig:
  "challenge (decoder_view_sig test_prims test_params test_sig) = [0x21, 0x43]"
  "challengeC (decoder_view_sig test_prims test_params test_sig) = [1, 2]"
  "challengeP (decoder_view_sig test_prims test_params test_sig) = [10, 15]"
  "length (iSeedInfo (decoder_view_sig test_prims test_params test_sig)) = 14"
  "length (cvInfo (decoder_view_sig test_prims test_params test_sig)) = 28"
  "proofs (decoder_view_sig test_prims test_params test_sig) ! 1 =
     Some (test_proof1\<lparr>unOpenedIndex := 0\<rparr>)"
  "proofs (decoder_view_sig test_prims test_params test_sig) ! 2 =
     Some (test_proof2\<lparr>unOpenedIndex := 0\<rparr>)"
  unfolding decoder_view_sig_def test_rounds
  by (simp_all add: test_sig_simps decoder_view_entry_def decoder_view_def test_P_t
      test_params_simps test_prims_def test_proof2_def)

theorem deserializeSignature2_length_exact_witness:
  "expandChallenge test_prims test_params
     (take (digest_size test_params) (sig_bytes test_params test_sig)) = Some ([1, 2], [10, 15]) \<and>
   bytesRequired_of test_prims test_params [1, 2] [10, 15] = 115 \<and>
   length (butlast (sig_bytes test_params test_sig)) = 114 \<and>
   deserializeSignature2 test_prims test_params (butlast (sig_bytes test_params test_sig)) =
     Some (Inl (Returns EXIT_FAILURE)) \<and>
   deserializeSignature2 test_prims test_params (sig_bytes test_params test_sig) =
     Some (Inr (decoder_view_sig test_prims test_params test_sig)) \<and>
   challengeC (decoder_view_sig test_prims test_params test_sig) = [1, 2] \<and>
   length (sig_bytes test_params test_sig) = plain_len test_prims test_params [1, 2] [10, 15]"
proof -
  have e1: "expandChallenge test_prims test_params
     (take (digest_size test_params) (butlast (sig_bytes test_params test_sig))) =
       Some ([1, 2], [10, 15])"
    by (simp only: test_sig_bytes_prefix test_expandChallenge)
  have e2: "expandChallenge test_prims test_params
     (take (digest_size test_params) (sig_bytes test_params test_sig)) = Some ([1, 2], [10, 15])"
    by (simp only: test_sig_bytes_prefix test_expandChallenge)
  have l: "length (butlast (sig_bytes test_params test_sig)) = 114"
    by (simp add: test_sig_bytes_length)
  have "length (butlast (sig_bytes test_params test_sig)) \<noteq>
      bytesRequired_of test_prims test_params [1, 2] [10, 15]"
    by (simp only: l test_bytesRequired)
  with deserializeSignature2_length_exact [OF e1, THEN conjunct1]
  have r: "deserializeSignature2 test_prims test_params (butlast (sig_bytes test_params test_sig)) =
     Some (Inl (Returns EXIT_FAILURE))"
    by blast
  note acc = deserializeSignature2_length_exact [OF e2, THEN conjunct2, THEN conjunct2,
      rule_format, OF test_deserialize]
  from acc have "challengeC (decoder_view_sig test_prims test_params test_sig) = [1, 2]"
    "length (sig_bytes test_params test_sig) = plain_len test_prims test_params [1, 2] [10, 15]"
    by blast+
  with e2 l r test_deserialize test_bytesRequired show ?thesis by (intro conjI) simp_all
qed

lemma test_proofs_nth:
  "proofs (decoder_view_sig test_prims test_params test_sig) ! 1 = Some p \<Longrightarrow>
     input p = [17] \<and> msgs p = [6] \<and> aux p = [5]"
  using test_decoder_view_sig(6) by (auto simp: test_proof1_def)

theorem deserializeSignature2_padding_witness:
  "expandChallenge test_prims test_params
     (take (digest_size test_params) (sig_bytes test_params test_sig)) = Some ([1, 2], [10, 15]) \<and>
   digest_size test_params + SALT_SIZE \<le> length (sig_bytes test_params test_sig) \<and>
   iSeedInfoLen_of test_prims test_params [1, 2] \<noteq> SIZE_MAX \<and>
   cvInfoLen_of test_prims test_params [1, 2] \<noteq> SIZE_MAX \<and>
   seedInfoLen_of test_prims test_params \<noteq> SIZE_MAX \<and>
   length (sig_bytes test_params test_sig) = bytesRequired_of test_prims test_params [1, 2] [10, 15] \<and>
   deserializeSignature2 test_prims test_params (sig_bytes test_params test_sig) =
     Some (Inr (decoder_view_sig test_prims test_params test_sig)) \<and>
   contains [1, 2] (num_opened_rounds test_params) (of_nat 1) \<and>
   unat (P_t_of test_params [1, 2] [10, 15] 1) \<noteq> num_MPC_parties test_params - 1 \<and>
   arePaddingBitsZero test_prims [17] (input_output_size test_params)
     (lowmc_n (lowmc test_params)) = Inr True \<and>
   arePaddingBitsZero test_prims [6] (view_size test_params)
     (3 * lowmc_r (lowmc test_params) * lowmc_m (lowmc test_params)) = Inr True \<and>
   arePaddingBitsZero test_prims [5] (view_size test_params)
     (3 * lowmc_r (lowmc test_params) * lowmc_m (lowmc test_params)) = Inr True"
proof -
  have e: "expandChallenge test_prims test_params
     (take (digest_size test_params) (sig_bytes test_params test_sig)) = Some ([1, 2], [10, 15])"
    by (simp only: test_sig_bytes_prefix test_expandChallenge)
  have h: "digest_size test_params + SALT_SIZE \<le> length (sig_bytes test_params test_sig)"
    "iSeedInfoLen_of test_prims test_params [1, 2] \<noteq> SIZE_MAX"
    "cvInfoLen_of test_prims test_params [1, 2] \<noteq> SIZE_MAX"
    "seedInfoLen_of test_prims test_params \<noteq> SIZE_MAX"
    "length (sig_bytes test_params test_sig) = bytesRequired_of test_prims test_params [1, 2] [10, 15]"
    by (simp_all add: test_sig_bytes_length test_bytesRequired test_sizes test_params_simps
        SALT_SIZE_def SIZE_MAX_def)
  have c: "contains [1, 2] (num_opened_rounds test_params) (of_nat 1)"
    "unat (P_t_of test_params [1, 2] [10, 15] 1) \<noteq> num_MPC_parties test_params - 1"
    "(1::nat) < num_rounds test_params"
    by (simp_all add: contains_def test_params_simps test_P_t)
  from deserializeSignature2_padding [OF e h]
  obtain sg where sg: "deserializeSignature2 test_prims test_params (sig_bytes test_params test_sig)
      = Some (Inr sg)"
    and pad: "\<forall>t < num_rounds test_params.
       contains [1, 2] (num_opened_rounds test_params) (of_nat t) \<longrightarrow>
     (\<exists>p. proofs sg ! t = Some p \<and>
        arePaddingBitsZero test_prims (input p) (input_output_size test_params)
          (lowmc_n (lowmc test_params)) = Inr True \<and>
        arePaddingBitsZero test_prims (msgs p) (view_size test_params)
          (3 * lowmc_r (lowmc test_params) * lowmc_m (lowmc test_params)) = Inr True \<and>
        (unat (P_t_of test_params [1, 2] [10, 15] t) \<noteq> num_MPC_parties test_params - 1 \<longrightarrow>
           arePaddingBitsZero test_prims (aux p) (view_size test_params)
             (3 * lowmc_r (lowmc test_params) * lowmc_m (lowmc test_params)) = Inr True))"
    unfolding test_deserialize by (elim disjE exE conjE) simp_all
  from sg have sg_eq: "sg = decoder_view_sig test_prims test_params test_sig"
    unfolding test_deserialize by simp
  from pad [rule_format, OF c(3) c(1)] c(2)
  obtain p where p: "proofs (decoder_view_sig test_prims test_params test_sig) ! 1 = Some p"
    "arePaddingBitsZero test_prims (input p) (input_output_size test_params)
          (lowmc_n (lowmc test_params)) = Inr True"
    "arePaddingBitsZero test_prims (msgs p) (view_size test_params)
          (3 * lowmc_r (lowmc test_params) * lowmc_m (lowmc test_params)) = Inr True"
    "arePaddingBitsZero test_prims (aux p) (view_size test_params)
             (3 * lowmc_r (lowmc test_params) * lowmc_m (lowmc test_params)) = Inr True"
    unfolding sg_eq by blast
  from test_proofs_nth [OF p(1)] p(2,3,4) have
    "arePaddingBitsZero test_prims [17] (input_output_size test_params)
       (lowmc_n (lowmc test_params)) = Inr True"
    "arePaddingBitsZero test_prims [6] (view_size test_params)
       (3 * lowmc_r (lowmc test_params) * lowmc_m (lowmc test_params)) = Inr True"
    "arePaddingBitsZero test_prims [5] (view_size test_params)
       (3 * lowmc_r (lowmc test_params) * lowmc_m (lowmc test_params)) = Inr True"
    by simp_all
  with e h c(1,2) test_deserialize show ?thesis by (intro conjI)
qed

lemma decoder_view_sig_simps:
  "salt (decoder_view_sig pr params sg) = salt sg"
  "iSeedInfo (decoder_view_sig pr params sg) = iSeedInfo sg"
  "cvInfo (decoder_view_sig pr params sg) = cvInfo sg"
  "challenge (decoder_view_sig pr params sg) = challenge sg"
  "challengeC (decoder_view_sig pr params sg) = challengeC sg"
  "challengeP (decoder_view_sig pr params sg) = challengeP sg"
  "proofs (decoder_view_sig pr params sg) =
     map (decoder_view_entry pr params (challengeC sg) (challengeP sg))
       (zip [0..<num_rounds params] (proofs sg))"
  by (simp_all add: decoder_view_sig_def)

lemma decoder_view_proofs_nth:
  assumes wf: "list_all2 (wf_entry pr params cC cP sil) [0..<T] ps" and t: "t < T"
  shows "if contains cC (num_opened_rounds params) (of_nat t)
         then \<exists>p. ps ! t = Some p \<and>
                map (decoder_view_entry pr params cC cP) (zip [0..<T] ps) ! t =
                  Some (decoder_view pr params (P_t_of params cC cP t) p)
         else ps ! t = None \<and> map (decoder_view_entry pr params cC cP) (zip [0..<T] ps) ! t = None"
proof -
  from list_all2_lengthD [OF wf] have len: "length ps = T" by simp
  from list_all2_nthD [OF wf, of t] t have e: "wf_entry pr params cC cP sil t (ps ! t)" by simp
  have "map (decoder_view_entry pr params cC cP) (zip [0..<T] ps) ! t =
      decoder_view_entry pr params cC cP (t, ps ! t)"
    using t len by simp
  with e show ?thesis
    by (auto simp: wf_entry_def decoder_view_entry_def split: option.splits)
qed

text \<open>
  C2 (as amended). Serialization round trip. A well-formed signature is written as the
  concatenation of its fields, and decoding those bytes gives back challenge, salt,
  \<open>iSeedInfo\<close>, \<open>cvInfo\<close>, the two challenge lists and, for every opened round, the
  proof fields \<open>seedInfo\<close>, \<open>input\<close>, \<open>msgs\<close>, \<open>C\<close> and \<open>aux\<close> when it is present;
  rounds that are not opened have no proof on either side. The field \<open>unOpenedIndex\<close> is
  not reconstructed: the decoder leaves it as \<^verbatim>\<open>allocateProof2\<close> set it. In the other
  direction, re-serializing the structure decoded from any accepted byte string
  reproduces the byte string and its length.
\<close>

theorem serialization_round_trip:
  "(wf_signature pr params sg \<and> num_rounds params \<le> 65535 \<and>
    plain_len pr params (challengeC sg) (challengeP sg) \<le> n \<longrightarrow>
      (\<exists>r sg'.
         serializeSignature2 sg n params = Some (Inr (r, sig_bytes params sg)) \<and>
         deserializeSignature2 pr params (sig_bytes params sg) = Some (Inr sg') \<and>
         challenge sg' = challenge sg \<and> salt sg' = salt sg \<and>
         iSeedInfo sg' = iSeedInfo sg \<and> cvInfo sg' = cvInfo sg \<and>
         challengeC sg' = challengeC sg \<and> challengeP sg' = challengeP sg \<and>
         length (proofs sg') = num_rounds params \<and>
         (\<forall>t < num_rounds params.
            if contains (challengeC sg) (num_opened_rounds params) (of_nat t)
            then \<exists>p p'. proofs sg ! t = Some p \<and> proofs sg' ! t = Some p' \<and>
                   seedInfo p' = seedInfo p \<and> input p' = input p \<and> msgs p' = msgs p \<and>
                   C p' = C p \<and>
                   (unat (P_t_of params (challengeC sg) (challengeP sg) t)
                      \<noteq> num_MPC_parties params - 1 \<longrightarrow> aux p' = aux p) \<and>
                   unOpenedIndex p' = unOpenedIndex (allocateProof2 pr params)
            else proofs sg ! t = None \<and> proofs sg' ! t = None))) \<and>
   (deserializeSignature2 pr params bs0 = Some (Inr sg0) \<and> num_rounds params \<le> 65535 \<and>
    length bs0 \<le> n0 \<longrightarrow>
      serializeSignature2 sg0 n0 params = Some (Inr (int_of_size (length bs0), bs0)))"
proof (intro conjI impI)
  assume a: "wf_signature pr params sg \<and> num_rounds params \<le> 65535 \<and>
    plain_len pr params (challengeC sg) (challengeP sg) \<le> n"
  then have wf: "wf_signature pr params sg" and T: "num_rounds params \<le> 65535"
    and n: "plain_len pr params (challengeC sg) (challengeP sg) \<le> n" by blast+
  let ?sg' = "decoder_view_sig pr params sg"
  from wf have wfe: "list_all2 (wf_entry pr params (challengeC sg) (challengeP sg)
       (seedInfoLen_of pr params)) [0..<num_rounds params] (proofs sg)"
    unfolding wf_signature_def by blast
  have len: "length (proofs ?sg') = num_rounds params"
    using list_all2_lengthD [OF wfe] by (simp add: decoder_view_sig_simps)
  have "\<forall>t < num_rounds params.
            if contains (challengeC sg) (num_opened_rounds params) (of_nat t)
            then \<exists>p p'. proofs sg ! t = Some p \<and> proofs ?sg' ! t = Some p' \<and>
                   seedInfo p' = seedInfo p \<and> input p' = input p \<and> msgs p' = msgs p \<and>
                   C p' = C p \<and>
                   (unat (P_t_of params (challengeC sg) (challengeP sg) t)
                      \<noteq> num_MPC_parties params - 1 \<longrightarrow> aux p' = aux p) \<and>
                   unOpenedIndex p' = unOpenedIndex (allocateProof2 pr params)
            else proofs sg ! t = None \<and> proofs ?sg' ! t = None"
  proof (intro allI impI)
    fix t assume "t < num_rounds params"
    from decoder_view_proofs_nth [OF wfe this]
    show "if contains (challengeC sg) (num_opened_rounds params) (of_nat t)
            then \<exists>p p'. proofs sg ! t = Some p \<and> proofs ?sg' ! t = Some p' \<and>
                   seedInfo p' = seedInfo p \<and> input p' = input p \<and> msgs p' = msgs p \<and>
                   C p' = C p \<and>
                   (unat (P_t_of params (challengeC sg) (challengeP sg) t)
                      \<noteq> num_MPC_parties params - 1 \<longrightarrow> aux p' = aux p) \<and>
                   unOpenedIndex p' = unOpenedIndex (allocateProof2 pr params)
            else proofs sg ! t = None \<and> proofs ?sg' ! t = None"
      by (auto simp: decoder_view_sig_simps decoder_view_def split: if_splits)
  qed
  with serializeSignature2_wf [OF wf n T] deserialize_sig_bytes [OF wf] len
  show "\<exists>r sg'.
         serializeSignature2 sg n params = Some (Inr (r, sig_bytes params sg)) \<and>
         deserializeSignature2 pr params (sig_bytes params sg) = Some (Inr sg') \<and>
         challenge sg' = challenge sg \<and> salt sg' = salt sg \<and>
         iSeedInfo sg' = iSeedInfo sg \<and> cvInfo sg' = cvInfo sg \<and>
         challengeC sg' = challengeC sg \<and> challengeP sg' = challengeP sg \<and>
         length (proofs sg') = num_rounds params \<and>
         (\<forall>t < num_rounds params.
            if contains (challengeC sg) (num_opened_rounds params) (of_nat t)
            then \<exists>p p'. proofs sg ! t = Some p \<and> proofs sg' ! t = Some p' \<and>
                   seedInfo p' = seedInfo p \<and> input p' = input p \<and> msgs p' = msgs p \<and>
                   C p' = C p \<and>
                   (unat (P_t_of params (challengeC sg) (challengeP sg) t)
                      \<noteq> num_MPC_parties params - 1 \<longrightarrow> aux p' = aux p) \<and>
                   unOpenedIndex p' = unOpenedIndex (allocateProof2 pr params)
            else proofs sg ! t = None \<and> proofs sg' ! t = None)"
    apply (intro exI [of _ "int_of_size (plain_len pr params (challengeC sg) (challengeP sg))"]
        exI [of _ ?sg'] conjI)
             apply (assumption | simp only: decoder_view_sig_simps)+
    done
next
  assume "deserializeSignature2 pr params bs0 = Some (Inr sg0) \<and> num_rounds params \<le> 65535 \<and>
    length bs0 \<le> n0"
  then show "serializeSignature2 sg0 n0 params = Some (Inr (int_of_size (length bs0), bs0))"
    using serialize_decoded by blast
qed

theorem serialization_round_trip_witness:
  "wf_signature test_prims test_params test_sig \<and> num_rounds test_params \<le> 65535 \<and>
   plain_len test_prims test_params (challengeC test_sig) (challengeP test_sig) \<le> 115 \<and>
   deserializeSignature2 test_prims test_params (sig_bytes test_params test_sig) =
     Some (Inr (decoder_view_sig test_prims test_params test_sig)) \<and>
   length (sig_bytes test_params test_sig) \<le> 115 \<and>
   serializeSignature2 (decoder_view_sig test_prims test_params test_sig) 115 test_params =
     Some (Inr (115, sig_bytes test_params test_sig)) \<and>
   (\<exists>r. serializeSignature2 test_sig 115 test_params = Some (Inr (r, sig_bytes test_params test_sig)))"
proof -
  have h: "num_rounds test_params \<le> 65535"
    "plain_len test_prims test_params (challengeC test_sig) (challengeP test_sig) \<le> 115"
    "length (sig_bytes test_params test_sig) \<le> 115"
    by (simp_all add: test_params_simps test_sig_simps test_plain_len test_sig_bytes_length)
  note rt = serialization_round_trip [of test_prims test_params test_sig 115
      "sig_bytes test_params test_sig" "decoder_view_sig test_prims test_params test_sig" 115]
  from rt [THEN conjunct2] test_deserialize h
  have 1: "serializeSignature2 (decoder_view_sig test_prims test_params test_sig) 115 test_params =
     Some (Inr (int_of_size (length (sig_bytes test_params test_sig)),
                sig_bytes test_params test_sig))"
    by blast
  have 2: "int_of_size (length (sig_bytes test_params test_sig)) = 115"
    by (simp add: test_sig_bytes_length int_of_size_def)
  from rt [THEN conjunct1] test_wf_signature h
  have 3: "\<exists>r. serializeSignature2 test_sig 115 test_params =
      Some (Inr (r, sig_bytes test_params test_sig))"
    by blast
  from 1 2 3 h test_wf_signature test_deserialize show ?thesis by simp
qed

theorem round_trip_unOpenedIndex_counterexample:
  "wf_signature test_prims test_params test_sig \<and>
   serializeSignature2 test_sig 115 test_params =
     Some (Inr (115, sig_bytes test_params test_sig)) \<and>
   deserializeSignature2 test_prims test_params (sig_bytes test_params test_sig) =
     Some (Inr (decoder_view_sig test_prims test_params test_sig)) \<and>
   map_option unOpenedIndex (proofs test_sig ! 1) = Some 10 \<and>
   map_option unOpenedIndex (proofs (decoder_view_sig test_prims test_params test_sig) ! 1)
     = Some 0 \<and>
   decoder_view_sig test_prims test_params test_sig \<noteq> test_sig"
proof -
  have 1: "serializeSignature2 test_sig 115 test_params =
     Some (Inr (115, sig_bytes test_params test_sig))"
    using serializeSignature2_wf [OF test_wf_signature, of 115]
    by (simp add: test_sig_simps test_plain_len test_params_simps int_of_size_def)
  have 2: "map_option unOpenedIndex (proofs test_sig ! 1) = Some 10"
    by (simp add: test_sig_simps test_proof1_def)
  have 3: "map_option unOpenedIndex
      (proofs (decoder_view_sig test_prims test_params test_sig) ! 1) = Some 0"
    by (simp only: test_decoder_view_sig) simp
  from 2 3 have "proofs (decoder_view_sig test_prims test_params test_sig) \<noteq> proofs test_sig"
    by auto
  then have "decoder_view_sig test_prims test_params test_sig \<noteq> test_sig" by auto
  with 1 2 3 test_wf_signature test_deserialize show ?thesis by blast
qed

lemma decoded_entry_nth:
  assumes "deserializeSignature2 pr params bs = Some (Inr sg)" and "t < num_rounds params"
  shows "decoded_entry pr params (challengeC sg) (challengeP sg) (seedInfoLen_of pr params) t
           (proofs sg ! t)"
proof -
  from deserializeSignature2_Inr [OF assms(1)]
  have "list_all2 (decoded_entry pr params (challengeC sg) (challengeP sg) (seedInfoLen_of pr params))
       [0..<num_rounds params] (proofs sg)" by blast
  from list_all2_decoded_nth [OF this assms(2)] show ?thesis .
qed

text \<open>
  C8. Structural presence of \<open>aux\<close>. In the decoding of an accepted byte string, the
  bytes of the proof of an opened round \<open>t\<close> are \<open>seedInfo\<close>, then \<open>aux\<close> exactly when
  \<open>challengeP[indexOf(t)] \<noteq> N - 1\<close>, then \<open>input\<close>, \<open>msgs\<close> and \<open>C\<close>; the length
  computation counts \<^verbatim>\<open>view_size\<close> for \<open>aux\<close> under the same condition; under that
  condition the decoder has read \<^verbatim>\<open>view_size\<close> bytes of \<open>aux\<close> and checked their
  padding, and otherwise has left \<open>aux\<close> as allocated; and the serializer writes the
  same bytes back.
\<close>

theorem aux_present_iff_unopened_not_last:
  assumes "deserializeSignature2 pr params bs = Some (Inr sg)"
    and "t < num_rounds params"
    and "contains (challengeC sg) (num_opened_rounds params) (of_nat t)"
    and "num_rounds params \<le> 65535" and "length bs \<le> n"
  shows "\<exists>p. proofs sg ! t = Some p \<and>
     entry_bytes params (challengeC sg) (challengeP sg) (t, proofs sg ! t) =
       seedInfo p
       @ (if unat (P_t_of params (challengeC sg) (challengeP sg) t) \<noteq> num_MPC_parties params - 1
          then aux p else [])
       @ input p @ msgs p @ C p \<and>
     length (entry_bytes params (challengeC sg) (challengeP sg) (t, proofs sg ! t)) =
       seedInfoLen_of pr params
       + (if unat (P_t_of params (challengeC sg) (challengeP sg) t) \<noteq> num_MPC_parties params - 1
          then view_size params else 0)
       + input_output_size params + view_size params + digest_size params \<and>
     proof_len params (challengeC sg) (challengeP sg) (seedInfoLen_of pr params) t =
       length (entry_bytes params (challengeC sg) (challengeP sg) (t, proofs sg ! t)) \<and>
     (if unat (P_t_of params (challengeC sg) (challengeP sg) t) \<noteq> num_MPC_parties params - 1
      then length (aux p) = view_size params \<and>
           arePaddingBitsZero pr (aux p) (view_size params)
             (3 * lowmc_r (lowmc params) * lowmc_m (lowmc params)) = Inr True
      else aux p = aux (allocateProof2 pr params)) \<and>
     bs = sig_bytes params sg \<and>
     length bs = plain_len pr params (challengeC sg) (challengeP sg) \<and>
     serializeSignature2 sg n params = Some (Inr (int_of_size (length bs), bs))"
proof -
  let ?P_t = "P_t_of params (challengeC sg) (challengeP sg) t"
  from decoded_entry_nth [OF assms(1,2)] assms(3) obtain p where
    p: "proofs sg ! t = Some p" and
    d: "decoded_proof pr params (seedInfoLen_of pr params) ?P_t p"
    by (auto simp: decoded_entry_def)
  have e: "entry_bytes params (challengeC sg) (challengeP sg) (t, proofs sg ! t) =
      proof_bytes params ?P_t p"
    using assms(3) p by (simp add: entry_bytes_def)
  note d' = deserializeSignature2_Inr [OF assms(1)]
  from d' have bs: "bs = sig_bytes params sg" unfolding sig_bytes_def by blast
  from d' have pl: "length bs = plain_len pr params (challengeC sg) (challengeP sg)" by blast
  have pln: "proof_len params (challengeC sg) (challengeP sg) (seedInfoLen_of pr params) t =
      length (proof_bytes params ?P_t p)"
    using assms(3) by (simp add: proof_len_def length_proof_bytes [OF d])
  have ax: "if unat ?P_t \<noteq> num_MPC_parties params - 1
      then length (aux p) = view_size params \<and>
           arePaddingBitsZero pr (aux p) (view_size params)
             (3 * lowmc_r (lowmc params) * lowmc_m (lowmc params)) = Inr True
      else aux p = aux (allocateProof2 pr params)"
    using d unfolding decoded_proof_def by blast
  show ?thesis
    apply (rule exI [of _ p])
    apply (intro conjI)
           apply (rule p)
          apply (simp only: e proof_bytes_def)
         apply (simp only: e length_proof_bytes [OF d])
        apply (simp only: e pln)
       apply (rule ax)
      apply (rule bs)
     apply (rule pl)
    apply (rule serialize_decoded [OF assms(1,5,4)])
    done
qed

theorem aux_present_iff_unopened_not_last_witness:
  "deserializeSignature2 test_prims test_params (sig_bytes test_params test_sig) =
     Some (Inr (decoder_view_sig test_prims test_params test_sig)) \<and>
   (1 :: nat) < num_rounds test_params \<and> (2 :: nat) < num_rounds test_params \<and>
   contains [1, 2] (num_opened_rounds test_params) (of_nat 1) \<and>
   contains [1, 2] (num_opened_rounds test_params) (of_nat 2) \<and>
   num_rounds test_params \<le> 65535 \<and> length (sig_bytes test_params test_sig) \<le> 115 \<and>
   unat (P_t_of test_params [1, 2] [10, 15] 1) \<noteq> num_MPC_parties test_params - 1 \<and>
   unat (P_t_of test_params [1, 2] [10, 15] 2) = num_MPC_parties test_params - 1 \<and>
   length (entry_bytes test_params [1, 2] [10, 15]
      (1, proofs (decoder_view_sig test_prims test_params test_sig) ! 1)) = 20 \<and>
   length (entry_bytes test_params [1, 2] [10, 15]
      (2, proofs (decoder_view_sig test_prims test_params test_sig) ! 2)) = 19"
proof -
  have h: "(1 :: nat) < num_rounds test_params" "(2 :: nat) < num_rounds test_params"
    "contains (challengeC (decoder_view_sig test_prims test_params test_sig))
       (num_opened_rounds test_params) (of_nat 1)"
    "contains (challengeC (decoder_view_sig test_prims test_params test_sig))
       (num_opened_rounds test_params) (of_nat 2)"
    "num_rounds test_params \<le> 65535" "length (sig_bytes test_params test_sig) \<le> 115"
    by (simp_all add: test_params_simps contains_def test_sig_bytes_length test_decoder_view_sig)
  have q: "unat (P_t_of test_params [1, 2] [10, 15] 1) \<noteq> num_MPC_parties test_params - 1"
    "unat (P_t_of test_params [1, 2] [10, 15] 2) = num_MPC_parties test_params - 1"
    by (simp_all add: test_P_t test_params_simps)
  from aux_present_iff_unopened_not_last [OF test_deserialize h(1) h(3) h(5) h(6)] q(1)
  have 1: "length (entry_bytes test_params [1, 2] [10, 15]
      (1, proofs (decoder_view_sig test_prims test_params test_sig) ! 1)) = 20"
    by (auto simp: test_decoder_view_sig test_sizes test_params_simps)
  from aux_present_iff_unopened_not_last [OF test_deserialize h(2) h(4) h(5) h(6)] q(2)
  have 2: "length (entry_bytes test_params [1, 2] [10, 15]
      (2, proofs (decoder_view_sig test_prims test_params test_sig) ! 2)) = 19"
    by (auto simp: test_decoder_view_sig test_sizes test_params_simps)
  from h [unfolded test_decoder_view_sig] q 1 2 test_deserialize show ?thesis
    by (intro conjI)
qed

text \<open>
  C10. Uniform opening size. In the decoding of an accepted byte string the seed opening
  of every opened round has the one length \<^verbatim>\<open>revealSeedsSize(N, {0}, 1, params)\<close>,
  whichever party is hidden in that round. Hence an opening whose length is the size for
  a hidden leaf \<open>u\<close>, where that size differs from the size for leaf 0, is never what the
  decoder returns: decoding is right only if the size does not depend on the hidden leaf.
\<close>

theorem decoder_uniform_seedInfoLen:
  assumes "deserializeSignature2 pr params bs = Some (Inr sg)" and "t < num_rounds params"
  shows "(contains (challengeC sg) (num_opened_rounds params) (of_nat t) \<longrightarrow>
            (\<exists>p. proofs sg ! t = Some p \<and>
               length (seedInfo p) = revealSeedsSize pr (num_MPC_parties params) [0] 1 params)) \<and>
         (\<forall>u si. length si = revealSeedsSize pr (num_MPC_parties params) [u] 1 params \<and>
            revealSeedsSize pr (num_MPC_parties params) [u] 1 params
              \<noteq> revealSeedsSize pr (num_MPC_parties params) [0] 1 params \<longrightarrow>
            map_option seedInfo (proofs sg ! t) \<noteq> Some si)"
proof -
  note e = decoded_entry_nth [OF assms]
  show ?thesis
  proof (cases "contains (challengeC sg) (num_opened_rounds params) (of_nat t)")
    case True
    with e obtain p where p: "proofs sg ! t = Some p"
      and l: "length (seedInfo p) = seedInfoLen_of pr params"
      by (auto simp: decoded_entry_def decoded_proof_def)
    then show ?thesis by (auto simp: seedInfoLen_of_def)
  next
    case False
    with e have "proofs sg ! t = None" by (simp add: decoded_entry_def)
    with False show ?thesis by simp
  qed
qed

theorem decoder_uniform_seedInfoLen_witness:
  "deserializeSignature2 test_prims test_params (sig_bytes test_params test_sig) =
     Some (Inr (decoder_view_sig test_prims test_params test_sig)) \<and>
   (1 :: nat) < num_rounds test_params \<and>
   contains [1, 2] (num_opened_rounds test_params) (of_nat 1) \<and>
   revealSeedsSize test_prims (num_MPC_parties test_params) [0] 1 test_params = 15 \<and>
   revealSeedsSize test_prims (num_MPC_parties test_params) [3] 1 test_params = 16 \<and>
   map_option (\<lambda>p. length (seedInfo p))
     (proofs (decoder_view_sig test_prims test_params test_sig) ! 1) = Some 15 \<and>
   map_option seedInfo (proofs (decoder_view_sig test_prims test_params test_sig) ! 1)
     \<noteq> Some (replicate 16 0)"
proof -
  have h: "(1 :: nat) < num_rounds test_params"
    "contains (challengeC (decoder_view_sig test_prims test_params test_sig))
       (num_opened_rounds test_params) (of_nat 1)"
    by (simp_all add: test_params_simps contains_def test_decoder_view_sig)
  have s: "revealSeedsSize test_prims (num_MPC_parties test_params) [0] 1 test_params = 15"
    "revealSeedsSize test_prims (num_MPC_parties test_params) [3] 1 test_params = 16"
    by (simp_all add: test_prims_def test_params_simps)
  note u = decoder_uniform_seedInfoLen [OF test_deserialize h(1)]
  from u [THEN conjunct1, rule_format, OF h(2)]
  have 1: "map_option (\<lambda>p. length (seedInfo p))
     (proofs (decoder_view_sig test_prims test_params test_sig) ! 1) = Some 15"
    unfolding s by auto
  have "length (replicate 16 (0 :: byte)) =
      revealSeedsSize test_prims (num_MPC_parties test_params) [3] 1 test_params \<and>
    revealSeedsSize test_prims (num_MPC_parties test_params) [3] 1 test_params
      \<noteq> revealSeedsSize test_prims (num_MPC_parties test_params) [0] 1 test_params"
    unfolding s by simp
  from u [THEN conjunct2, rule_format, OF this]
  have 2: "map_option seedInfo (proofs (decoder_view_sig test_prims test_params test_sig) ! 1)
     \<noteq> Some (replicate 16 0)" .
  from h [unfolded test_decoder_view_sig] s 1 2 test_deserialize show ?thesis
    by (intro conjI)
qed


section \<open>Properties of signing and verification\<close>

lemma toy_params_simps:
  "digest_size toy_params = 2" "seed_size toy_params = 1" "num_rounds toy_params = 4"
  "num_opened_rounds toy_params = 2" "num_MPC_parties toy_params = 4"
  "input_output_size toy_params = 1" "view_size toy_params = 1"
  "lowmc_n (lowmc toy_params) = 5" "lowmc_m (lowmc toy_params) = 1" "lowmc_r (lowmc toy_params) = 1"
  by (simp_all add: toy_params_def)

lemma toy_hash_squeeze:
  "hash_squeeze toy_prims ctx len =
     replicate len (case ctx_prefix ctx of None \<Rightarrow> 0x21 | Some b \<Rightarrow> 0x2D)"
  by (simp add: hash_squeeze_def toy_prims_def map_replicate_const)


lemma toy_prims_simps:
  "xof toy_prims = (\<lambda>d p data i. case p of None \<Rightarrow> 0x21 | Some b \<Rightarrow> 0x2D)"
  "getBit toy_prims = test_getBit"
  "ceil_log2 toy_prims 4 = 2"
  "check_padding_bits toy_prims = test_check_padding_bits"
  "setBit toy_prims = toy_setBit"
  by (simp_all add: toy_prims_def)

lemma toy_rehash: "rehash toy_prims toy_params h = [0x2D, 0x2D]"
  by (simp add: rehash_def toy_hash_squeeze hash_final_def hash_update_def hash_init_prefix_def
      toy_params_simps numeral_2_eq_2)

lemma toy_bits:
  "bitsToChunks toy_prims 2 [0x21, 0x21] 2 = [1, 0, 2, 0, 1, 0, 2, 0]"
  "bitsToChunks toy_prims 2 [0x2D, 0x2D] 2 = [1, 3, 2, 0, 1, 3, 2, 0]"
  by (simp_all add: bitsToChunks_def chunk_of_def toy_prims_simps test_getBit_def upt_rec)


lemma toy_chunksC: "chunksC toy_params [1, 0, 2, 0, 1, 0, 2, 0] [] = [1, 0]"
  by (simp add: toy_params_simps appendUnique_def contains_def)

lemma toy_chunksP: "chunksP toy_params [1, 3, 2, 0, 1, 3, 2, 0] [] = [1, 3]"
  by (simp add: toy_params_simps)

lemma toy_populateC:
  "populateC toy_prims toy_params [0x21, 0x21] [] = Some ([1, 0], [0x2D, 0x2D])"
  apply (subst populateC.simps)
  apply (simp only: toy_params_simps toy_prims_simps toy_bits toy_chunksC toy_rehash)
  apply (subst populateC.simps)
  apply (simp add: toy_params_simps)
  done

lemma toy_populateP:
  "populateP toy_prims toy_params [0x2D, 0x2D] [] = Some ([1, 3], [0x2D, 0x2D])"
  apply (subst populateP.simps)
  apply (simp only: toy_params_simps toy_prims_simps toy_bits toy_chunksP toy_rehash)
  apply (subst populateP.simps)
  apply (simp add: toy_params_simps)
  done

lemma toy_expandChallenge:
  "expandChallenge toy_prims toy_params (replicate 2 0x21) = Some ([1, 0], [1, 3])"
  by (simp add: expandChallenge_def toy_populateC toy_populateP toy_params_simps numeral_2_eq_2)

lemma toy_alloc: "allocateSignature2 toy_prims toy_params \<noteq> None"
  by (simp add: toy_prims_def)

lemma toy_sizes:
  "revealSeedsSize toy_prims 4 [1, 0] 2 toy_params = 2"
  "revealSeedsSize toy_prims 4 [0] 1 toy_params = 3"
  "revealSeedsSize toy_prims 4 [0] (Suc 0) toy_params = 3"
  "openMerkleTreeSize toy_prims 4 ms 2 toy_params = 4"
  by (simp_all add: toy_prims_def toy_params_simps)

lemma toy_P_t:
  "P_t_of toy_params [1, 0] [1, 3] 0 = 3" "P_t_of toy_params [1, 0] [1, 3] 1 = 1"
  "P_t_of toy_params [1, 0] [1, 3] (Suc 0) = 1"
  by (simp_all add: P_t_of_def indexOf_def toy_params_simps)

lemma toy_rounds: "[0..<num_rounds toy_params] = [0, 1, 2, 3]"
  by (simp add: toy_params_simps upt_rec)

lemma toy_bad_padding:
  "deserializeSignature2 toy_prims toy_params (replicate 2 0x21 @ replicate 53 0xFF) =
     Some (Inl (Returns (- 1)))"
  unfolding deserializeSignature2_def
  apply (simp add: toy_params_simps SALT_SIZE_def toy_expandChallenge)
  unfolding deserialize_expanded_def Let_def toy_rounds
  apply (simp add: toy_params_simps toy_sizes SALT_SIZE_def SIZE_MAX_def size_sub_def size_add_def
      bytesRequired_step_def contains_def toy_P_t memcpy_from_def read_proof_def
      not_last_party_def arePaddingBitsZero_def toy_prims_simps test_check_padding_bits_def EXIT_FAILURE_def)
  done

lemma toy_short:
  "deserializeSignature2 toy_prims toy_params [] = Some (Inl (Returns EXIT_FAILURE))"
  by (simp add: deserializeSignature2_def toy_params_simps SALT_SIZE_def)

lemma computeSaltAndRootSeed_eq:
  "computeSaltAndRootSeed pr len sk pk pt msg msglen params =
     map (xof pr (digest_size params) None
            (take (input_output_size params) sk @ take msglen msg
               @ take (input_output_size params) pk @ take (input_output_size params) pt
               @ [ucast (of_nat (lowmc_n (lowmc params)) :: u16),
                  ucast (drop_bit 8 (of_nat (lowmc_n (lowmc params)) :: u16))]))
       [0..<len]"
  by (simp add: computeSaltAndRootSeed_def hash_squeeze_def hash_final_def hash_update_def
      hash_update_uint16_le_def hash_init_def Let_def)

lemma sign_picnic3_frame:
  assumes "length (proofs sg) = num_rounds params" "length (proofs sg') = num_rounds params"
  shows "rel_option (rel_sum (=) (\<lambda>a b.
            salt a = salt b \<and> iSeedInfo a = iSeedInfo b \<and> cvInfo a = cvInfo b \<and>
            challenge a = challenge b \<and> challengeC a = challengeC b \<and>
            challengeP a = challengeP b \<and> length (proofs a) = num_rounds params \<and>
            length (proofs b) = num_rounds params \<and>
            (\<forall>t<num_rounds params. contains (challengeC a) (num_opened_rounds params) (of_nat t)
                \<longrightarrow> proofs a ! t = proofs b ! t)))
          (sign_picnic3 pr sk pk pt msg msglen sg params)
          (sign_picnic3 pr sk pk pt msg msglen sg' params)"
  unfolding sign_picnic3_def initialize_seeds_tree_def Let_def
  using assms
  by (simp split: option.splits sum.splits prod.splits)


lemma required_step_frame:
  "length ps = length ts \<Longrightarrow> length ps' = length ts \<Longrightarrow>
   (\<forall>i<length ts. contains cC (num_opened_rounds params) (of_nat (ts ! i)) \<longrightarrow> ps ! i = ps' ! i) \<Longrightarrow>
   foldl (required_step params cC cP) b (zip ts ps) = foldl (required_step params cC cP) b (zip ts ps')"
proof (induction ts arbitrary: ps ps' b)
  case Nil
  then show ?case by simp
next
  case (Cons t ts)
  from Cons.prems obtain p qs p' qs' where ps: "ps = p # qs" "ps' = p' # qs'"
    by (cases ps; cases ps') auto
  from Cons.prems(3) have h: "contains cC (num_opened_rounds params) (of_nat t) \<longrightarrow> p = p'"
    unfolding ps by (auto dest: spec [of _ 0])
  from Cons.prems(3) have t: "\<forall>i<length ts. contains cC (num_opened_rounds params) (of_nat (ts ! i))
      \<longrightarrow> qs ! i = qs' ! i"
    unfolding ps by (auto dest: spec [of _ "Suc i" for i])
  have s: "required_step params cC cP b (t, p) = required_step params cC cP b (t, p')"
    using h by (simp add: required_step_def)
  show ?case
    unfolding ps using Cons.prems(1,2) Cons.IH [OF _ _ t] s by (simp add: ps)
qed

lemma write_proofs_frame:
  "length ps = length ts \<Longrightarrow> length ps' = length ts \<Longrightarrow>
   (\<forall>i<length ts. contains cC (num_opened_rounds params) (of_nat (ts ! i)) \<longrightarrow> ps ! i = ps' ! i) \<Longrightarrow>
   write_proofs params cC cP (zip ts ps) = write_proofs params cC cP (zip ts ps')"
proof (induction ts arbitrary: ps ps')
  case Nil
  then show ?case by simp
next
  case (Cons t ts)
  from Cons.prems obtain p qs p' qs' where ps: "ps = p # qs" "ps' = p' # qs'"
    by (cases ps; cases ps') auto
  from Cons.prems(3) have h: "contains cC (num_opened_rounds params) (of_nat t) \<longrightarrow> p = p'"
    unfolding ps by (auto dest: spec [of _ 0])
  from Cons.prems(3) have t: "\<forall>i<length ts. contains cC (num_opened_rounds params) (of_nat (ts ! i))
      \<longrightarrow> qs ! i = qs' ! i"
    unfolding ps by (auto dest: spec [of _ "Suc i" for i])
  show ?case
    unfolding ps using Cons.prems(1,2) Cons.IH [OF _ _ t] h by (simp add: ps)
qed

lemma serializeSignature2_frame:
  assumes "salt a = salt b" "iSeedInfo a = iSeedInfo b" "cvInfo a = cvInfo b"
    "challenge a = challenge b" "challengeC a = challengeC b" "challengeP a = challengeP b"
    "length (proofs a) = num_rounds params" "length (proofs b) = num_rounds params"
    "\<forall>t<num_rounds params. contains (challengeC a) (num_opened_rounds params) (of_nat t)
        \<longrightarrow> proofs a ! t = proofs b ! t"
  shows "serializeSignature2 a n params = serializeSignature2 b n params"
proof -
  have r: "required_signature_size a params = required_signature_size b params"
    unfolding required_signature_size_def assms(1-6) [symmetric]
    by (rule arg_cong [OF required_step_frame]) (use assms in simp_all)
  have w: "write_proofs params (challengeC a) (challengeP a) (zip [0..<num_rounds params] (proofs a))
         = write_proofs params (challengeC b) (challengeP b) (zip [0..<num_rounds params] (proofs b))"
    unfolding assms(1-6) [symmetric]
    by (rule write_proofs_frame) (use assms in simp_all)
  show ?thesis
    unfolding serializeSignature2_def r w assms(1-4) assms(7,8) by (rule refl)
qed

lemma sign_and_serialize_frame:
  assumes "length (proofs sg) = num_rounds params" "length (proofs sg') = num_rounds params"
  shows "sign_and_serialize pr sg params pt sk pk msg msglen buf len =
         sign_and_serialize pr sg' params pt sk pk msg msglen buf len"
proof -
  note f = sign_picnic3_frame [OF assms, of pr sk pk pt msg msglen]
  show ?thesis
  proof (cases "sign_picnic3 pr sk pk pt msg msglen sg params")
    case None
    with f show ?thesis by (simp add: sign_and_serialize_def option_rel_Some1 split: option.splits)
  next
    case (Some r)
    with f obtain r' where r': "sign_picnic3 pr sk pk pt msg msglen sg' params = Some r'"
      and rel: "rel_sum (=) (\<lambda>a b.
            salt a = salt b \<and> iSeedInfo a = iSeedInfo b \<and> cvInfo a = cvInfo b \<and>
            challenge a = challenge b \<and> challengeC a = challengeC b \<and>
            challengeP a = challengeP b \<and> length (proofs a) = num_rounds params \<and>
            length (proofs b) = num_rounds params \<and>
            (\<forall>t<num_rounds params. contains (challengeC a) (num_opened_rounds params) (of_nat t)
                \<longrightarrow> proofs a ! t = proofs b ! t)) r r'"
      by (auto simp: option_rel_Some1)
    show ?thesis
    proof (cases r)
      case (Inl e)
      with rel have "r' = Inl e" by (cases r') auto
      with Some r' Inl show ?thesis by (simp add: sign_and_serialize_def)
    next
      case (Inr a)
      with rel obtain b where b: "r' = Inr b" and
        ab: "salt a = salt b" "iSeedInfo a = iSeedInfo b" "cvInfo a = cvInfo b"
            "challenge a = challenge b" "challengeC a = challengeC b" "challengeP a = challengeP b"
            "length (proofs a) = num_rounds params" "length (proofs b) = num_rounds params"
            "\<forall>t<num_rounds params. contains (challengeC a) (num_opened_rounds params) (of_nat t)
                \<longrightarrow> proofs a ! t = proofs b ! t"
        by (cases r') auto
      from serializeSignature2_frame [OF ab] Some r' Inr b show ?thesis
        by (simp add: sign_and_serialize_def)
    qed
  qed
qed

lemma sign_and_serialize_buffer:
  assumes "length buf = length buf'"
  shows "rel_option (rel_sum (=) (\<lambda>r r'. fst r = fst r' \<and>
            (\<exists>out. snd r = out @ drop (length out) buf \<and> snd r' = out @ drop (length out) buf')))
          (sign_and_serialize pr sg params pt sk pk msg msglen buf len)
          (sign_and_serialize pr sg params pt sk pk msg msglen buf' len)"
  unfolding sign_and_serialize_def using assms
  by (auto split: option.splits sum.splits prod.splits)


text \<open>
  C7. The claim is that every failure of \<^verbatim>\<open>impl_verify_picnic3\<close> yields one and the same
  return value. It does not hold of the code: \<^verbatim>\<open>deserializeSignature2\<close> returns
  \<^verbatim>\<open>EXIT_FAILURE\<close>, which is 1, for a signature of the wrong length, and
  \<^verbatim>\<open>impl_verify_picnic3\<close> hands that value on, while a signature of the right length
  with a nonzero padding bit is rejected with \<open>- 1\<close>, the value \<^verbatim>\<open>verify_picnic3\<close> returns
  when it rejects. On the small instance the empty signature gives 1 and a 55-byte
  signature whose first \<^verbatim>\<open>input\<close> field is \<open>0xFF\<close> gives \<open>- 1\<close>.
\<close>

theorem impl_verify_picnic3_reject_values:
  "impl_verify_picnic3 toy_prims toy_params plaintext public_key msg msglen [] =
     Some (Returns 1) \<and>
   impl_verify_picnic3 toy_prims toy_params plaintext public_key msg msglen
     (replicate 2 0x21 @ replicate 53 0xFF) = Some (Returns (- 1))"
  using toy_alloc toy_short toy_bad_padding
  by (auto simp: impl_verify_picnic3_def EXIT_FAILURE_def split: option.splits)

lemma ctx_prefix_simps:
  "ctx_prefix (hash_init d) = None"
  "ctx_prefix (hash_update ctx dat l) = ctx_prefix ctx"
  "ctx_prefix (hash_update_uint16_le ctx v) = ctx_prefix ctx"
  "ctx_prefix (hash_final ctx) = ctx_prefix ctx"
  by (simp_all add: hash_init_def hash_update_def hash_update_uint16_le_def hash_final_def)

lemma toy_squeeze: "ctx_prefix ctx = None \<Longrightarrow> hash_squeeze toy_prims ctx len = replicate len 0x21"
  by (simp add: toy_hash_squeeze)

lemma lanes_simps:
  "\<forall>k<4. ctx_prefix (hash_init_x4 d ! k) = None"
  "\<forall>k<4. ctx_prefix (c ! k) = None \<Longrightarrow> \<forall>k<4. ctx_prefix (hash_update_x4 c ds l ! k) = None"
  "\<forall>k<4. ctx_prefix (c ! k) = None \<Longrightarrow> \<forall>k<4. ctx_prefix (hash_update_x4_4 c d0 d1 d2 d3 l ! k) = None"
  "\<forall>k<4. ctx_prefix (c ! k) = None \<Longrightarrow> \<forall>k<4. ctx_prefix (hash_update_x4_1 c d0 l ! k) = None"
  "\<forall>k<4. ctx_prefix (c ! k) = None \<Longrightarrow> \<forall>k<4. ctx_prefix (hash_update_x4_uint16_le c v ! k) = None"
  "\<forall>k<4. ctx_prefix (c ! k) = None \<Longrightarrow> \<forall>k<4. ctx_prefix (hash_update_x4_uint16s_le c vs ! k) = None"
  by (simp_all add: hash_init_x4_def hash_update_x4_def hash_update_x4_4_def hash_update_x4_1_def
      hash_update_x4_uint16_le_def hash_update_x4_uint16s_le_def ctx_prefix_simps
      del: upt_Suc)

lemma lanes_final:
  "length c = 4 \<Longrightarrow> \<forall>k<4. ctx_prefix (c ! k) = None \<Longrightarrow> \<forall>k<4. ctx_prefix (hash_final_x4 c ! k) = None"
  by (simp add: hash_final_x4_def ctx_prefix_simps)

lemma lanes_length:
  "length (hash_init_x4 d) = 4"
  "length (hash_update_x4 c ds l) = 4"
  "length (hash_update_x4_4 c d0 d1 d2 d3 l) = 4"
  "length (hash_update_x4_1 c d0 l) = 4"
  "length (hash_update_x4_uint16_le c v) = 4"
  "length (hash_update_x4_uint16s_le c vs) = 4"
  by (simp_all add: hash_init_x4_def hash_update_x4_def hash_update_x4_4_def hash_update_x4_1_def
      hash_update_x4_uint16_le_def hash_update_x4_uint16s_le_def)

lemma toy_squeeze_x4:
  assumes "\<forall>k<4. ctx_prefix (c ! k) = None"
  shows "hash_squeeze_x4 toy_prims c len = replicate 4 (replicate len 0x21)"
proof -
  have "hash_squeeze_x4 toy_prims c len = map (\<lambda>k. replicate len 0x21) [0..<4]"
    unfolding hash_squeeze_x4_def using assms
    by (intro map_cong refl) (simp add: toy_squeeze)
  then show ?thesis by (simp add: map_replicate_const)
qed

lemma toy_commit: "commit toy_prims seed ax slt t j toy_params = [0x21, 0x21]"
  by (simp add: commit_def Let_def toy_squeeze ctx_prefix_simps toy_params_simps numeral_2_eq_2
      split: option.splits)

lemmas lanes = lanes_final lanes_simps lanes_length

lemma toy_commit_x4: "commit_x4 toy_prims seeds slt t j toy_params = replicate 4 [0x21, 0x21]"
  unfolding commit_x4_def Let_def
  apply (subst toy_squeeze_x4)
   apply (intro lanes)
  apply (simp add: toy_params_simps numeral_2_eq_2)
  done

lemma toy_commit_seeds_x4:
  "commit_seeds_x4 toy_prims seed slt t toy_params = replicate 4 [0x21, 0x21]"
  by (simp add: commit_seeds_x4_def toy_commit_x4 toy_params_simps Let_def)

lemma toy_alloc_tape:
  "allocateRandomTape toy_prims toy_params =
     \<lparr>tape = replicate 4 [0, 0], parity_tapes = [0, 0], aux_bits = [0],
      tape_pos = 0, aux_pos = 0\<rparr>"
  by (simp add: toy_prims_def toy_params_simps numeral_2_eq_2)

lemma toy_createRandomTapes:
  "createRandomTapes toy_prims seeds slt t toy_params =
     \<lparr>tape = replicate 4 [0x21, 0x21], parity_tapes = [0, 0], aux_bits = [0],
      tape_pos = 0, aux_pos = 0\<rparr>"
  unfolding createRandomTapes_def Let_def hash_squeeze_x4_4_def
  apply (subst toy_squeeze_x4)
   apply (intro lanes)
  apply (simp add: toy_params_simps toy_alloc_tape numeral_2_eq_2)
  done

lemma toy_fields:
  "generateSeeds toy_prims n seed slt idx params = Some (replicate (n * seed_size params) 0)"
  "createTree toy_prims n ds = Some (replicate (n * ds) 0)"
  "getLeaves toy_prims tr = Some tr"
  "getLeaf toy_prims tr j = drop j tr"
  "revealSeeds toy_prims tr H hl ol params = replicate (length tr - hl * seed_size params) 0"
  "reconstructSeeds toy_prims tr H hl inp il slt idx params = (0, tr)"
  "buildMerkleTree toy_prims tr lv slt params = tr"
  "openMerkleTree toy_prims tr ml msz = Some (replicate (msz * 2) 0)"
  "addMerkleNodes toy_prims tr ml msz inp il = (0, tr)"
  "verifyMerkleTree toy_prims tr lv slt params = (0, tr)"
  "tree_nodes toy_prims tr = tr"
  "mzd_from_char_array toy_prims b len = take len b"
  "mzd_to_char_array toy_prims m len = take len m @ replicate (len - length m) 0"
  "lowmc_compute_aux toy_prims lp key tp =
        (key, tp\<lparr>tape := (tape tp)[length (tape tp) - 1 :=
                              toy_clear_aux lp (tape tp ! (length (tape tp) - 1))],
                 aux_bits := replicate (length (aux_bits tp)) 0\<rparr>)"
  "simulateOnline toy_prims mk tp ms pt pk params =
        (0, tp, ms\<lparr>msgs_msgs := replicate (num_MPC_parties params)
                                     (replicate (view_size params) 0),
                   msgs_pos := 3 * lowmc_r (lowmc params) * lowmc_m (lowmc params)\<rparr>)"
  "allocateMsgs toy_prims params = Some (replicate (num_rounds params)
        \<lparr>msgs_msgs = replicate (num_MPC_parties params) (replicate (view_size params) 0),
         msgs_pos = 0, msgs_unopened = - 1\<rparr>)"
  "allocateMsgsVerify toy_prims params = Some
        \<lparr>msgs_msgs = replicate (num_MPC_parties params) (replicate (view_size params) 0),
         msgs_pos = 0, msgs_unopened = - 1\<rparr>"
  "allocateSignature2 toy_prims params = Some
        \<lparr>salt = replicate SALT_SIZE 0, iSeedInfo = [], cvInfo = [],
         challenge = replicate (digest_size params) 0,
         challengeC = replicate (num_opened_rounds params) 0,
         challengeP = replicate (num_opened_rounds params) 0,
         proofs = replicate (num_rounds params) None\<rparr>"
  "allocateProof2 toy_prims params = \<lparr>seedInfo = [], aux = replicate (view_size params) 0,
        C = replicate (digest_size params) 0, input = replicate (input_output_size params) 0,
        msgs = replicate (view_size params) 0, unOpenedIndex = 0\<rparr>"
  by (simp_all add: toy_prims_def)

lemma toy_clear: "toy_clear_aux (lowmc toy_params) [0x21, 0x21] = [0x01, 0x20]"
  by (simp add: toy_clear_aux_def toy_params_simps toy_setBit_def upt_rec unset_bit_eq_and_not)

lemma replicate_4: "replicate 4 x = [x, x, x, x]"
  by (simp add: numeral_eq_Suc)

lemma toy_parity:
  "foldl (\<lambda>p i. xor_byte_array p (replicate 4 [0x21, 0x21 :: byte] ! i) 2 @ drop 2 p)
     [0, 0] [0..<4] = [0, 0]"
  by (simp add: replicate_4 xor_byte_array_def upt_rec)

lemma toy_computeAuxTape:
  "computeAuxTape toy_prims
     \<lparr>tape = replicate 4 [0x21, 0x21], parity_tapes = [0, 0], aux_bits = [0],
      tape_pos = 0, aux_pos = 0\<rparr> toy_params =
   (\<lparr>tape = [[0x21, 0x21], [0x21, 0x21], [0x21, 0x21], [0x01, 0x20]], parity_tapes = [0, 0],
     aux_bits = [0], tape_pos = 0, aux_pos = 0\<rparr>, [0])"
  unfolding computeAuxTape_def Let_def toy_params_simps toy_fields
  apply (simp only: randomTape_t.simps mult_2 one_add_one toy_parity)
  apply (simp add: replicate_4 toy_clear)
  done

lemma toy_sign_round:
  "sign_round_commitments toy_prims iSeeds slt toy_params t =
     Inr (replicate 4 0,
          \<lparr>tape = [[0x21, 0x21], [0x21, 0x21], [0x21, 0x21], [0x01, 0x20]], parity_tapes = [0, 0],
            aux_bits = [0], tape_pos = 0, aux_pos = 0\<rparr>, [0],
          \<lparr>hashes = replicate 4 [0x21, 0x21]\<rparr>)"
  unfolding sign_round_commitments_def toy_fields toy_createRandomTapes toy_computeAuxTape
      toy_commit_seeds_x4 toy_commit Let_def
  by (simp add: toy_params_simps replicate_4)

lemma toy_sign_online:
  "sign_online_round toy_prims [3] pk mp toy_params [0] tp ms =
     Inr ([3], tp, ms\<lparr>msgs_msgs := replicate 4 [0], msgs_pos := 3\<rparr>)"
  by (simp add: sign_online_round_def Let_def toy_fields toy_params_simps xor_byte_array_def
      toy_prims_simps toy_setBit_def upt_rec unset_bit_eq_and_not replicate_4)

lemma ctx_prefix_foldl:
  "ctx_prefix (foldl (\<lambda>ctx i. hash_update ctx (f i) l) c xs) = ctx_prefix c"
  by (induction xs arbitrary: c) (simp_all add: ctx_prefix_simps)

lemma lanes_foldl:
  "\<forall>k<4. ctx_prefix (c ! k) = None \<Longrightarrow>
   \<forall>k<4. ctx_prefix (foldl (\<lambda>ctx i. hash_update_x4_4 ctx (f0 i) (f1 i) (f2 i) (f3 i) l) c xs ! k)
            = None"
proof (induction xs arbitrary: c)
  case Nil
  then show ?case by simp
next
  case (Cons x xs)
  from Cons.prems have "\<forall>k<4. ctx_prefix (hash_update_x4_4 c (f0 x) (f1 x) (f2 x) (f3 x) l ! k) = None"
    by (rule lanes_simps)
  from Cons.IH [OF this] show ?case by simp
qed

lemma length_lanes_foldl:
  "length c = 4 \<Longrightarrow>
   length (foldl (\<lambda>ctx i. hash_update_x4_4 ctx (f0 i) (f1 i) (f2 i) (f3 i) l) c xs) = 4"
  by (induction xs arbitrary: c) (simp_all add: lanes_length)

lemma toy_commit_h: "commit_h toy_prims Cm toy_params = [0x21, 0x21]"
  by (simp add: commit_h_def toy_squeeze ctx_prefix_simps ctx_prefix_foldl toy_params_simps
      numeral_2_eq_2)

lemma toy_commit_v: "commit_v toy_prims inp ms toy_params = [0x21, 0x21]"
  by (simp add: commit_v_def toy_squeeze ctx_prefix_simps ctx_prefix_foldl toy_params_simps
      numeral_2_eq_2)

lemma toy_commit_h_x4: "commit_h_x4 toy_prims Cs toy_params = [[0x21, 0x21], [0x21, 0x21], [0x21, 0x21], [0x21, 0x21]]"
  unfolding commit_h_x4_def
  apply (subst toy_squeeze_x4)
   apply (intro lanes lanes_foldl length_lanes_foldl)
  apply (simp add: toy_params_simps numeral_2_eq_2 replicate_4)
  done

lemma toy_commit_v_x4: "commit_v_x4 toy_prims inps mss toy_params = [[0x21, 0x21], [0x21, 0x21], [0x21, 0x21], [0x21, 0x21]]"
  unfolding commit_v_x4_def
  apply (subst toy_squeeze_x4)
   apply (intro lanes lanes_foldl length_lanes_foldl)
  apply (simp add: toy_params_simps numeral_2_eq_2 replicate_4)
  done

lemma toy_sign_Ch: "sign_Ch toy_prims Cs toy_params = [[0x21, 0x21], [0x21, 0x21], [0x21, 0x21], [0x21, 0x21]]"
  by (simp add: sign_Ch_def toy_commit_h_x4 toy_params_simps)

lemma toy_sign_Cv: "sign_Cv toy_prims inps mss toy_params = [[0x21, 0x21], [0x21, 0x21], [0x21, 0x21], [0x21, 0x21]]"
  by (simp add: sign_Cv_def toy_commit_v_x4 toy_params_simps)

lemma toy_HCP:
  "HCP toy_prims Ch hCv slt pk pt msg msglen toy_params = Some ([0x21, 0x21], [1, 0], [1, 3])"
proof -
  have d: "HCP_digest toy_prims Ch hCv slt pk pt msg msglen toy_params = replicate 2 0x21"
    by (simp add: HCP_digest_def Let_def toy_squeeze ctx_prefix_simps ctx_prefix_foldl
        toy_params_simps)
  have r: "replicate 2 (0x21 :: byte) = [0x21, 0x21]" by (simp add: numeral_2_eq_2)
  show ?thesis
    unfolding HCP_def Let_def d toy_expandChallenge by (simp add: r)
qed

lemma toy_allocateSignature2: "allocateSignature2 toy_prims toy_params = Some toy_sig0"
  by (simp add: toy_fields toy_sig0_def toy_params_simps SALT_SIZE_def replicate_4 numeral_2_eq_2)

lemma toy_initialize:
  "initialize_seeds_tree toy_prims sk pk pt msg msglen toy_sig0 toy_params =
     (Some [0, 0, 0, 0], toy_sig0\<lparr>salt := replicate 32 0x21\<rparr>)"
  by (simp add: initialize_seeds_tree_def Let_def computeSaltAndRootSeed_eq toy_fields
      toy_prims_simps toy_params_simps SALT_SIZE_def replicate_4 map_replicate_const)

lemma toy_rounds_fun:
  "sign_round_commitments toy_prims iSeeds slt toy_params =
     (\<lambda>t. Inr (replicate 4 0,
          \<lparr>tape = [[0x21, 0x21], [0x21, 0x21], [0x21, 0x21], [0x01, 0x20]], parity_tapes = [0, 0],
            aux_bits = [0], tape_pos = 0, aux_pos = 0\<rparr>, [0],
          \<lparr>hashes = replicate 4 [0x21, 0x21]\<rparr>))"
  by (rule ext) (rule toy_sign_round)

lemma for_each_const: "for_each (\<lambda>t. Inr y) xs = Inr (map (\<lambda>t. y) xs)"
  by (induction xs) simp_all

lemma for_each_map: "for_each (\<lambda>t. Inr (g t)) xs = Inr (map g xs)"
  by (induction xs) simp_all

lemma toy_sign_picnic3:
  "sign_picnic3 toy_prims [3] pk pt msg msglen toy_sig0 toy_params = Some (Inr toy_sig)"
  unfolding sign_picnic3_def toy_initialize
  apply (simp only: prod.case option.case Let_def toy_fields toy_rounds_fun for_each_const
      sum.case toy_sign_Ch toy_sign_Cv toy_HCP)
  apply (simp only: toy_rounds map_replicate_const list.map nth_Cons_0 nth_Cons_Suc
      toy_sign_online for_each_map)
  apply (simp add: toy_params_simps toy_sig0_def toy_sig_def toy_sign_online sign_proof_def
      toy_P_t not_last_party_def contains_def toy_fields toy_commit size_sub_def SIZE_MAX_def
      replicate_4 Let_def)
  done

lemma toy_sig_simps:
  "salt toy_sig = replicate 32 0x21" "iSeedInfo toy_sig = [0, 0]" "cvInfo toy_sig = [0, 0, 0, 0]"
  "challenge toy_sig = [0x21, 0x21]" "challengeC toy_sig = [1, 0]" "challengeP toy_sig = [1, 3]"
  "length (proofs toy_sig) = 4"
  by (simp_all add: toy_sig_def)

lemma toy_required: "required_signature_size toy_sig toy_params = 55"
  unfolding required_signature_size_def toy_rounds toy_sig_simps
  by (simp add: toy_sig_def required_step_def
      toy_params_simps contains_def toy_P_t not_last_party_def size_add_def SIZE_MAX_def
      SALT_SIZE_def Let_def)

lemma toy_write_proofs:
  "write_proofs toy_params [1, 0] [1, 3]
     (zip [0, 1, 2, 3] (proofs toy_sig)) =
   Inr ([0, 0, 0, 3, 0, 0x21, 0x21] @ [0, 0, 0, 0, 3, 0, 0x21, 0x21])"
  by (simp add: toy_sig_def write_proof_def toy_params_simps contains_def toy_P_t
      not_last_party_def memcpy_from_def)

lemma toy_serialize:
  "serializeSignature2 toy_sig 60 toy_params = Some (Inr (55, toy_sig_bytes))"
  unfolding serializeSignature2_def toy_required Let_def toy_rounds toy_sig_simps
    toy_write_proofs
  by (simp add: toy_params_simps memcpy_from_def SALT_SIZE_def int_of_size_def
      toy_sig_bytes_def)

lemma toy_impl_sign:
  "impl_sign_picnic3 toy_prims toy_params pt [3] pk msg msglen (replicate 60 0) 60 =
     Some (Inr (55, toy_sig_bytes @ replicate 5 0))"
  unfolding impl_sign_picnic3_def toy_allocateSignature2 option.case sign_and_serialize_def
    toy_sign_picnic3 sum.case toy_serialize prod.case
  by (simp add: toy_sig_bytes_def)

lemma impl_sign_picnic3_Inr:
  assumes "impl_sign_picnic3 pr params pt sk pk msg msglen buf len = Some (Inr (L, buf'))"
  obtains sig0 sg ret out where
    "allocateSignature2 pr params = Some sig0"
    "sign_picnic3 pr sk pk pt msg msglen sig0 params = Some (Inr sg)"
    "serializeSignature2 sg len params = Some (Inr (ret, out))"
    "L = nat (ret mod 2 ^ 64)" "buf' = out @ drop (length out) buf"
  using assms unfolding impl_sign_picnic3_def sign_and_serialize_def
  by (auto split: option.splits sum.splits prod.splits if_splits)

lemma length_computeSaltAndRootSeed:
  "length (computeSaltAndRootSeed pr n sk pk pt msg msglen params) = n"
  by (simp add: computeSaltAndRootSeed_def hash_squeeze_def Let_def)

lemma sign_picnic3_seeds:
  assumes "sign_picnic3 pr sk pk pt msg msglen sg0 params = Some (Inr sg)"
  shows "salt sg = take SALT_SIZE
           (computeSaltAndRootSeed pr (seed_size params + SALT_SIZE) sk pk pt msg msglen params) \<and>
         (\<exists>iSeedsTree.
            generateSeeds pr (num_rounds params)
              (drop SALT_SIZE
                 (computeSaltAndRootSeed pr (seed_size params + SALT_SIZE) sk pk pt msg msglen
                    params))
              (salt sg) 0 params = Some iSeedsTree \<and>
            iSeedInfo sg = revealSeeds pr iSeedsTree (challengeC sg) (num_opened_rounds params)
                             (num_rounds params * seed_size params) params)"
  using assms
  unfolding sign_picnic3_def initialize_seeds_tree_def Let_def
  by (auto split: option.splits sum.splits prod.splits if_splits)

lemma serializeSignature2_prefix:
  assumes "serializeSignature2 sg len params = Some (Inr (r, bytes))"
  shows "take (digest_size params + SALT_SIZE) bytes =
           take (digest_size params) (challenge sg) @ take SALT_SIZE (salt sg) \<and>
         digest_size params \<le> length (challenge sg) \<and> SALT_SIZE \<le> length (salt sg)"
  using assms unfolding serializeSignature2_def Let_def
  by (auto simp: memcpy_from_def sum_bind_eq_Inr split: if_splits)

lemma salt_stream:
  "take SALT_SIZE (computeSaltAndRootSeed pr (seed_size params + SALT_SIZE) sk pk pt msg msglen
     params) =
   map (xof pr (digest_size params) None
          (take (input_output_size params) sk @ take msglen msg
             @ take (input_output_size params) pk @ take (input_output_size params) pt
             @ [ucast (of_nat (lowmc_n (lowmc params)) :: u16),
                ucast (drop_bit 8 (of_nat (lowmc_n (lowmc params)) :: u16))]))
     [0..<SALT_SIZE]"
  by (simp add: computeSaltAndRootSeed_eq take_map)

lemma seed_stream:
  "drop SALT_SIZE (computeSaltAndRootSeed pr (seed_size params + SALT_SIZE) sk pk pt msg msglen
     params) =
   map (xof pr (digest_size params) None
          (take (input_output_size params) sk @ take msglen msg
             @ take (input_output_size params) pk @ take (input_output_size params) pt
             @ [ucast (of_nat (lowmc_n (lowmc params)) :: u16),
                ucast (drop_bit 8 (of_nat (lowmc_n (lowmc params)) :: u16))]))
     [SALT_SIZE..<SALT_SIZE + seed_size params]"
  by (simp add: computeSaltAndRootSeed_eq drop_map add.commute)

text \<open>
  C9. Signing is deterministic. When \<^verbatim>\<open>impl_sign_picnic3\<close> returns 0, the bytes of the
  output at the place of the salt (after the \<^verbatim>\<open>digest_size\<close> bytes of the challenge) are
  the first 32 bytes of the hash stream of
  \<open>privateKey \<parallel> message \<parallel> pubKey \<parallel> plaintext \<parallel> n\<close>; they are the salt of the signature
  \<^verbatim>\<open>sign_picnic3\<close> filled, whose seed tree was generated from that salt and from the
  following \<^verbatim>\<open>seed_size\<close> bytes of the stream, the root seed; and a call on the same
  inputs with another output buffer of the same size returns the same length and writes
  the same bytes. \<^verbatim>\<open>sign_picnic3\<close> takes no other input than the keys, the plaintext, the
  message, the parameters and the signature structure it fills, and what is serialized
  does not depend on what that structure held before (given its \<^verbatim>\<open>num_rounds\<close> proof
  slots). Two calls of \<^verbatim>\<open>impl_sign_picnic3\<close> on the same inputs, with output buffers of
  the same size and any contents, end the same way, also when they fail. On the small
  instance signing returns 0 with a signature of 55 bytes.
\<close>

theorem signing_deterministic:
  "(impl_sign_picnic3 pr params pt sk pk msg msglen buf len = Some (Inr (L, out)) \<longrightarrow>
      take SALT_SIZE (drop (digest_size params) out) =
        map (xof pr (digest_size params) None
               (salt_and_seed_input params sk pk pt msg msglen)) [0..<SALT_SIZE] \<and>
      (\<exists>sig0 sg iSeedsTree r bytes.
         allocateSignature2 pr params = Some sig0 \<and>
         sign_picnic3 pr sk pk pt msg msglen sig0 params = Some (Inr sg) \<and>
         salt sg = map (xof pr (digest_size params) None
                          (salt_and_seed_input params sk pk pt msg msglen)) [0..<SALT_SIZE] \<and>
         generateSeeds pr (num_rounds params)
           (map (xof pr (digest_size params) None
                   (salt_and_seed_input params sk pk pt msg msglen))
              [SALT_SIZE..<SALT_SIZE + seed_size params])
           (salt sg) 0 params = Some iSeedsTree \<and>
         iSeedInfo sg = revealSeeds pr iSeedsTree (challengeC sg) (num_opened_rounds params)
                          (num_rounds params * seed_size params) params \<and>
         serializeSignature2 sg len params = Some (Inr (r, bytes)) \<and>
         take (digest_size params + SALT_SIZE) bytes =
           take (digest_size params) (challenge sg) @ salt sg \<and>
         L = nat (r mod 2 ^ 64) \<and> out = bytes @ drop (length bytes) buf \<and>
         (length buf' = length buf \<longrightarrow>
            impl_sign_picnic3 pr params pt sk pk msg msglen buf' len =
              Some (Inr (L, bytes @ drop (length bytes) buf'))))) \<and>
   (length (proofs sg1) = num_rounds params \<and> length (proofs sg2) = num_rounds params \<longrightarrow>
      sign_and_serialize pr sg1 params pt sk pk msg msglen buf len =
      sign_and_serialize pr sg2 params pt sk pk msg msglen buf len) \<and>
   (length buf = length buf' \<longrightarrow>
      rel_option (rel_sum (=) (\<lambda>r r'. fst r = fst r' \<and>
          (\<exists>out. snd r = out @ drop (length out) buf \<and> snd r' = out @ drop (length out) buf')))
        (impl_sign_picnic3 pr params pt sk pk msg msglen buf len)
        (impl_sign_picnic3 pr params pt sk pk msg msglen buf' len))"
proof (intro conjI impI)
  let ?x = "xof pr (digest_size params) None (salt_and_seed_input params sk pk pt msg msglen)"
  assume a: "impl_sign_picnic3 pr params pt sk pk msg msglen buf len = Some (Inr (L, out))"
  from a obtain sig0 sg r bytes where
    al: "allocateSignature2 pr params = Some sig0" and
    sp: "sign_picnic3 pr sk pk pt msg msglen sig0 params = Some (Inr sg)" and
    se: "serializeSignature2 sg len params = Some (Inr (r, bytes))" and
    L: "L = nat (r mod 2 ^ 64)" and out: "out = bytes @ drop (length bytes) buf"
    by (rule impl_sign_picnic3_Inr)
  from sign_picnic3_seeds [OF sp] obtain iSeedsTree where
    slt: "salt sg = map ?x [0..<SALT_SIZE]" and
    gen: "generateSeeds pr (num_rounds params)
            (map ?x [SALT_SIZE..<SALT_SIZE + seed_size params]) (salt sg) 0 params
          = Some iSeedsTree" and
    isi: "iSeedInfo sg = revealSeeds pr iSeedsTree (challengeC sg) (num_opened_rounds params)
                          (num_rounds params * seed_size params) params"
    unfolding salt_stream seed_stream salt_and_seed_input_def by blast
  from slt have ls: "length (salt sg) = SALT_SIZE" by simp
  from serializeSignature2_prefix [OF se] ls
  have pre: "take (digest_size params + SALT_SIZE) bytes =
           take (digest_size params) (challenge sg) @ salt sg"
    and lc: "digest_size params \<le> length (challenge sg)" by simp_all
  have lb: "digest_size params + SALT_SIZE \<le> length bytes"
  proof -
    have "length (take (digest_size params + SALT_SIZE) bytes) = digest_size params + SALT_SIZE"
      unfolding pre using lc ls by simp
    then show ?thesis by simp
  qed
  have "take SALT_SIZE (drop (digest_size params) out) =
      take SALT_SIZE (drop (digest_size params) bytes)"
    unfolding out using lb by simp
  also have "\<dots> = drop (digest_size params) (take (digest_size params + SALT_SIZE) bytes)"
    by (simp add: drop_take add.commute)
  also have "\<dots> = salt sg" unfolding pre using lc by simp
  finally show "take SALT_SIZE (drop (digest_size params) out) = map ?x [0..<SALT_SIZE]"
    by (simp only: slt)
  have other: "length buf' = length buf \<longrightarrow>
            impl_sign_picnic3 pr params pt sk pk msg msglen buf' len =
              Some (Inr (L, bytes @ drop (length bytes) buf'))"
  proof
    assume l: "length buf' = length buf"
    from a al sp se have "\<not> length buf < length bytes" "r \<noteq> - 1"
      unfolding impl_sign_picnic3_def sign_and_serialize_def
      by (auto split: if_splits)
    with l al sp se L show "impl_sign_picnic3 pr params pt sk pk msg msglen buf' len =
              Some (Inr (L, bytes @ drop (length bytes) buf'))"
      unfolding impl_sign_picnic3_def sign_and_serialize_def by simp
  qed
  show "\<exists>sig0 sg iSeedsTree r bytes.
         allocateSignature2 pr params = Some sig0 \<and>
         sign_picnic3 pr sk pk pt msg msglen sig0 params = Some (Inr sg) \<and>
         salt sg = map ?x [0..<SALT_SIZE] \<and>
         generateSeeds pr (num_rounds params)
           (map ?x [SALT_SIZE..<SALT_SIZE + seed_size params])
           (salt sg) 0 params = Some iSeedsTree \<and>
         iSeedInfo sg = revealSeeds pr iSeedsTree (challengeC sg) (num_opened_rounds params)
                          (num_rounds params * seed_size params) params \<and>
         serializeSignature2 sg len params = Some (Inr (r, bytes)) \<and>
         take (digest_size params + SALT_SIZE) bytes =
           take (digest_size params) (challenge sg) @ salt sg \<and>
         L = nat (r mod 2 ^ 64) \<and> out = bytes @ drop (length bytes) buf \<and>
         (length buf' = length buf \<longrightarrow>
            impl_sign_picnic3 pr params pt sk pk msg msglen buf' len =
              Some (Inr (L, bytes @ drop (length bytes) buf')))"
    by (intro exI [of _ sig0] exI [of _ sg] exI [of _ iSeedsTree] exI [of _ r] exI [of _ bytes])
       (rule conjI [OF al conjI [OF sp conjI [OF slt conjI [OF gen conjI [OF isi
          conjI [OF se conjI [OF pre conjI [OF L conjI [OF out other]]]]]]]]])
next
  assume "length (proofs sg1) = num_rounds params \<and> length (proofs sg2) = num_rounds params"
  then show "sign_and_serialize pr sg1 params pt sk pk msg msglen buf len =
      sign_and_serialize pr sg2 params pt sk pk msg msglen buf len"
    by (intro sign_and_serialize_frame) simp_all
next
  assume l: "length buf = length buf'"
  show "rel_option (rel_sum (=) (\<lambda>r r'. fst r = fst r' \<and>
          (\<exists>out. snd r = out @ drop (length out) buf \<and> snd r' = out @ drop (length out) buf')))
        (impl_sign_picnic3 pr params pt sk pk msg msglen buf len)
        (impl_sign_picnic3 pr params pt sk pk msg msglen buf' len)"
    unfolding impl_sign_picnic3_def
    using sign_and_serialize_buffer [OF l, of pr _ params pt sk pk msg msglen len]
    by (cases "allocateSignature2 pr params") simp_all
qed

theorem signing_deterministic_witness:
  "impl_sign_picnic3 toy_prims toy_params [1] [3] [2] [4, 5] 2 (replicate 60 0) 60 =
     Some (Inr (55, toy_sig_bytes @ replicate 5 0)) \<and>
   take SALT_SIZE (drop (digest_size toy_params) (toy_sig_bytes @ replicate 5 0)) =
     replicate 32 0x21 \<and>
   map (xof toy_prims (digest_size toy_params) None
          (salt_and_seed_input toy_params [3] [2] [1] [4, 5] 2)) [0..<SALT_SIZE] =
     replicate 32 0x21 \<and>
   length (replicate 60 (0xFF :: byte)) = length (replicate 60 (0 :: byte)) \<and>
   impl_sign_picnic3 toy_prims toy_params [1] [3] [2] [4, 5] 2 (replicate 60 0xFF) 60 =
     Some (Inr (55, toy_sig_bytes @ replicate 5 0xFF)) \<and>
   length (proofs toy_sig0) = num_rounds toy_params \<and>
   length (proofs (toy_sig0\<lparr>salt := [7],
              proofs := replicate 4 (Some (allocateProof2 toy_prims toy_params))\<rparr>))
     = num_rounds toy_params \<and>
   sign_and_serialize toy_prims
       (toy_sig0\<lparr>salt := [7], proofs := replicate 4 (Some (allocateProof2 toy_prims toy_params))\<rparr>)
       toy_params [1] [3] [2] [4, 5] 2 (replicate 60 0) 60 =
     Some (Inr (55, toy_sig_bytes @ replicate 5 0))"
proof -
  let ?sg2 = "toy_sig0\<lparr>salt := [7],
                proofs := replicate 4 (Some (allocateProof2 toy_prims toy_params))\<rparr>"
  have run: "impl_sign_picnic3 toy_prims toy_params [1] [3] [2] [4, 5] 2 (replicate 60 0) 60 =
     Some (Inr (55, toy_sig_bytes @ replicate 5 0))"
    by (rule toy_impl_sign)
  have x: "map (xof toy_prims (digest_size toy_params) None
          (salt_and_seed_input toy_params [3] [2] [1] [4, 5] 2)) [0..<SALT_SIZE] =
     replicate 32 0x21"
    by (simp add: toy_prims_simps SALT_SIZE_def map_replicate_const)
  have l: "length (replicate 60 (0xFF :: byte)) = length (replicate 60 (0 :: byte))" by simp
  have p: "length (proofs toy_sig0) = num_rounds toy_params"
    "length (proofs ?sg2) = num_rounds toy_params"
    by (simp_all add: toy_sig0_def toy_params_simps)
  note t = signing_deterministic [where pr = toy_prims and params = toy_params and pt = "[1]"
      and sk = "[3]" and pk = "[2]" and msg = "[4, 5]" and msglen = 2
      and buf = "replicate 60 0" and len = 60 and L = 55
      and out = "toy_sig_bytes @ replicate 5 0" and buf' = "replicate 60 0xFF"
      and ?sg1.0 = toy_sig0 and ?sg2.0 = ?sg2]
  note t1 = t [THEN conjunct1, rule_format, OF run]
  from t1 [THEN conjunct1] x
  have s: "take SALT_SIZE (drop (digest_size toy_params) (toy_sig_bytes @ replicate 5 0)) =
     replicate 32 0x21"
    by (simp only:)
  from t1 [THEN conjunct2] obtain sig0 sg r bytes where
    al: "allocateSignature2 toy_prims toy_params = Some sig0" and
    sp: "sign_picnic3 toy_prims [3] [2] [1] [4, 5] 2 sig0 toy_params = Some (Inr sg)" and
    se: "serializeSignature2 sg 60 toy_params = Some (Inr (r, bytes))" and
    o: "length (replicate 60 (0xFF :: byte)) = length (replicate 60 (0 :: byte)) \<longrightarrow>
        impl_sign_picnic3 toy_prims toy_params [1] [3] [2] [4, 5] 2 (replicate 60 0xFF) 60 =
          Some (Inr (55, bytes @ drop (length bytes) (replicate 60 0xFF)))"
    by (elim exE conjE) (rule that)
  from al have "sig0 = toy_sig0" by (simp add: toy_allocateSignature2)
  with sp have "sg = toy_sig" by (simp add: toy_sign_picnic3)
  with se have b: "bytes = toy_sig_bytes" by (simp add: toy_serialize)
  have lb: "length toy_sig_bytes = 55" by (simp add: toy_sig_bytes_def)
  from o l have o': "impl_sign_picnic3 toy_prims toy_params [1] [3] [2] [4, 5] 2
      (replicate 60 0xFF) 60 = Some (Inr (55, toy_sig_bytes @ replicate 5 0xFF))"
    unfolding b lb by simp
  from t [THEN conjunct2, THEN conjunct1] p
  have "sign_and_serialize toy_prims toy_sig0 toy_params [1] [3] [2] [4, 5] 2 (replicate 60 0) 60 =
      sign_and_serialize toy_prims ?sg2 toy_params [1] [3] [2] [4, 5] 2 (replicate 60 0) 60"
    by blast
  moreover have "sign_and_serialize toy_prims toy_sig0 toy_params [1] [3] [2] [4, 5] 2
      (replicate 60 0) 60 = Some (Inr (55, toy_sig_bytes @ replicate 5 0))"
    using run unfolding impl_sign_picnic3_def toy_allocateSignature2 by simp
  ultimately have f: "sign_and_serialize toy_prims ?sg2 toy_params [1] [3] [2] [4, 5] 2
      (replicate 60 0) 60 = Some (Inr (55, toy_sig_bytes @ replicate 5 0))"
    by simp
  show ?thesis
    by (rule conjI [OF run conjI [OF s conjI [OF x conjI [OF l conjI [OF o'
          conjI [OF p(1) conjI [OF p(2) f]]]]]]])
qed

end
